(* ===== verification/Prelude.thy ===== *)
theory Prelude
  imports Main "HOL-Library.Word" "HOL-Library.AList"
begin

text \<open>
  Shared vocabulary of the gateway development: the machine integers of the Go code, run-time
  panics as values, the byte-slice operations (\<open>b[o:]\<close>, \<open>copy\<close>, big-endian stores), the clock,
  \<open>sync.Map\<close>, buffered channels, and the lemmas and proof hints the components share.
\<close>

unbundle bit_operations_syntax

section \<open>Machine integers and run-time panics\<close>

type_synonym byte = "8 word"
type_synonym u16 = "16 word"
type_synonym u32 = "32 word"
type_synonym u64 = "64 word"

text \<open>
  A Go run-time panic ends the goroutine and, unrecovered, the process (the gateway has no
  \<open>recover\<close>). A computation that may panic returns a sum: \<open>Inl\<close> the panic, \<open>Inr\<close> the result.
\<close>

datatype go_panic =
    IndexOutOfRange
  | SliceBoundsOutOfRange
  | NilDereference
  | CloseOfClosedChannel
  | SendOnClosedChannel
  | PanicValue string

type_synonym 'a go = "go_panic + 'a"

named_theorems go_ops \<open>unfolding of the slice, clock, map and channel primitives\<close>
named_theorems wrap_ops \<open>machine-integer primitives within their range\<close>

definition wrap64 :: "int \<Rightarrow> int" where
  \<comment> \<open>an \<open>int64\<close> result: two's complement wrap-around\<close>
  "wrap64 x = signed_take_bit 63 x"

definition go_rem :: "int \<Rightarrow> int \<Rightarrow> int" where
  \<comment> \<open>Go's \<open>%\<close> truncates towards zero: the remainder has the sign of the dividend\<close>
  "go_rem a b = sgn a * (\<bar>a\<bar> mod \<bar>b\<bar>)"

lemma wrap64_id [wrap_ops]: "-(2 ^ 63) \<le> x \<Longrightarrow> x < 2 ^ 63 \<Longrightarrow> wrap64 x = x"
  by (simp add: wrap64_def signed_take_bit_int_eq_self)

lemma go_rem_nonneg [wrap_ops]: "0 \<le> a \<Longrightarrow> 0 < b \<Longrightarrow> go_rem a b = a mod b"
  by (cases "a = 0") (simp_all add: go_rem_def sgn_if)

section \<open>Byte slices\<close>

definition put_at :: "nat \<Rightarrow> 'a list \<Rightarrow> 'a list \<Rightarrow> 'a list" where
  \<comment> \<open>overwrite \<open>b[o], b[o+1], ...\<close> with the elements of \<open>xs\<close> (all inside \<open>b\<close>)\<close>
  "put_at off xs b = take off b @ xs @ drop (off + length xs) b"

definition copy_at :: "nat \<Rightarrow> 'a list \<Rightarrow> 'a list \<Rightarrow> 'a list" where
  \<comment> \<open>\<open>copy(b[o:], src)\<close>: as many elements as both hold\<close>
  "copy_at off src b = put_at off (take (length b - off) src) b"

definition be16 :: "u16 \<Rightarrow> byte list" where
  "be16 x = [ucast (drop_bit 8 x), ucast x]"

definition be32 :: "u32 \<Rightarrow> byte list" where
  "be32 x = [ucast (drop_bit 24 x), ucast (drop_bit 16 x), ucast (drop_bit 8 x), ucast x]"

definition of_be16 :: "byte list \<Rightarrow> u16" where
  "of_be16 b = push_bit 8 (ucast (b ! 0)) OR ucast (b ! 1)"

definition of_be32 :: "byte list \<Rightarrow> u32" where
  "of_be32 b = push_bit 24 (ucast (b ! 0)) OR push_bit 16 (ucast (b ! 1))
     OR push_bit 8 (ucast (b ! 2)) OR ucast (b ! 3)"

definition store_at :: "'a list \<Rightarrow> nat \<Rightarrow> 'a list \<Rightarrow> 'a list go" where
  \<comment> \<open>\<open>PutUint16(b[o:], _)\<close> and \<open>PutUint32(b[o:], _)\<close>: both the slice expression and the
    store may be out of range\<close>
  "store_at b off xs =
     (if length b < off then Inl SliceBoundsOutOfRange
      else if length b < off + length xs then Inl IndexOutOfRange
      else Inr (put_at off xs b))"

definition copy_into :: "'a list \<Rightarrow> nat \<Rightarrow> 'a list \<Rightarrow> 'a list go" where
  \<comment> \<open>\<open>copy(b[o:], src)\<close> with its bounds check\<close>
  "copy_into b off src =
     (if length b < off then Inl SliceBoundsOutOfRange else Inr (copy_at off src b))"

lemma length_put_at [simp]: "off + length xs \<le> length b \<Longrightarrow> length (put_at off xs b) = length b"
  by (simp add: put_at_def)

lemma length_copy_at [simp]: "off \<le> length b \<Longrightarrow> length (copy_at off src b) = length b"
  by (auto simp: copy_at_def put_at_def)

lemma put_at_append:
  "off = length pre \<Longrightarrow> length xs = length mid \<Longrightarrow>
    put_at off xs (pre @ mid @ post) = pre @ xs @ post"
  by (simp add: put_at_def)

lemma copy_at_append:
  "off = length pre \<Longrightarrow> length xs = length mid \<Longrightarrow>
    copy_at off xs (pre @ mid @ post) = pre @ xs @ post"
  by (simp add: copy_at_def put_at_append)

lemma split_take3:
  "xs = take a xs @ take b (drop a xs) @ take c (drop (a + b) xs) @ drop (a + b + c) xs"
proof -
  have "xs = take a xs @ drop a xs" by (rule append_take_drop_id [symmetric])
  also have "drop a xs = take b (drop a xs) @ drop b (drop a xs)"
    by (rule append_take_drop_id [symmetric])
  also have "drop b (drop a xs) = drop (a + b) xs" by (simp add: add.commute)
  also have "drop (a + b) xs = take c (drop (a + b) xs) @ drop c (drop (a + b) xs)"
    by (rule append_take_drop_id [symmetric])
  also have "drop c (drop (a + b) xs) = drop (a + b + c) xs" by (simp add: add.commute)
  finally show ?thesis .
qed

lemma length_filter_mono:
  "(\<And>x. x \<in> set xs \<Longrightarrow> P x \<Longrightarrow> Q x) \<Longrightarrow> length (filter P xs) \<le> length (filter Q xs)"
  by (induction xs) (auto simp: le_SucI)

lemma split_at_last:
  assumes "xs @ c # ds = ys @ c # es" "c \<notin> set ds" "c \<notin> set es"
  shows "xs = ys \<and> ds = es"
  using assms by (auto simp: append_eq_append_conv2 Cons_eq_append_conv append_eq_Cons_conv)

lemma mod_window: "a < b \<Longrightarrow> b - a < m \<Longrightarrow> a mod m \<noteq> b mod (m :: nat)"
  by (metis less_imp_le mod_eq_dvd_iff_nat nat_dvd_not_less zero_less_diff)

lemma length_be16 [simp]: "length (be16 x) = 2"
  by (simp add: be16_def)

lemma length_be32 [simp]: "length (be32 x) = 4"
  by (simp add: be32_def)

lemma add_diff_max: "(k::nat) + (n - k) = max k n"
  by simp

lemma of_be16_be16 [simp]: "of_be16 (be16 x @ rest) = x"
  unfolding of_be16_def be16_def
  by (rule bit_word_eqI) (auto simp: bit_simps not_le add_diff_max max_def split: if_splits)

lemma of_be32_be32 [simp]: "of_be32 (be32 x @ rest) = x"
  unfolding of_be32_def be32_def
  by (rule bit_word_eqI)
    (auto simp: bit_simps not_le numeral_3_eq_3 add_diff_max max_def split: if_splits)

lemma byte_bit_high [simp]: "8 \<le> n \<Longrightarrow> \<not> bit (b :: byte) n"
  using bit_imp_le_length [of b n] by auto

lemma be16_of_be16: "be16 (of_be16 (a # b # rest)) = [a, b]"
  unfolding of_be16_def be16_def
  by (auto intro!: bit_word_eqI simp: bit_simps)

lemma be32_of_be32: "be32 (of_be32 (a # b # c # d # rest)) = [a, b, c, d]"
  unfolding of_be32_def be32_def
  by (auto intro!: bit_word_eqI simp: bit_simps numeral_3_eq_3)

section \<open>Bytes and strings\<close>

definition to_string :: "byte list \<Rightarrow> string" where
  \<comment> \<open>\<open>string(b)\<close>\<close>
  "to_string b = map (\<lambda>x. char_of (unat x)) b"

definition to_bytes :: "string \<Rightarrow> byte list" where
  \<comment> \<open>\<open>[]byte(s)\<close>\<close>
  "to_bytes s = map (\<lambda>c. of_nat (of_char c)) s"

lemma to_bytes_to_string [simp]: "to_bytes (to_string b) = b"
proof -
  have "(of_nat (unat x mod 256) :: byte) = x" for x :: byte
    using unsigned_less [of x, where 'a = nat] by simp
  then show ?thesis by (simp add: to_bytes_def to_string_def comp_def)
qed

lemma to_string_to_bytes [simp]: "to_string (to_bytes s) = s"
  by (simp add: to_bytes_def to_string_def comp_def unat_of_nat)

lemma length_to_bytes [simp]: "length (to_bytes s) = length s"
  by (simp add: to_bytes_def)

lemma to_bytes_append [simp]: "to_bytes (s @ t) = to_bytes s @ to_bytes t"
  by (simp add: to_bytes_def)

end
