(* ===== verification/GoRuntime.thy ===== *)
theory GoRuntime
  imports Prelude
begin

text \<open>
  The parts of the Go run time and standard library the components share: the clock, \<open>sync.Map\<close>
  (an association list with distinct keys; the order of the list stands for the unspecified
  iteration order of \<open>Range\<close>) with the registry contract its users rely on, and buffered channels.
\<close>

section \<open>Time\<close>

type_synonym time = int \<comment> \<open>nanoseconds\<close>
type_synonym duration = int

definition maxDuration :: duration where "maxDuration = 2 ^ 63 - 1"
definition minDuration :: duration where "minDuration = -(2 ^ 63)"
definition Second :: duration where "Second = 1000000000"
definition Minute :: duration where "Minute = 60 * Second"
definition Millisecond :: duration where "Millisecond = 1000000"

definition time_sub :: "time \<Rightarrow> time \<Rightarrow> duration" where
  \<comment> \<open>\<open>t.Sub(u)\<close> and \<open>time.Since(u)\<close> saturate at the bounds of \<open>time.Duration\<close>\<close>
  "time_sub t u = max minDuration (min maxDuration (t - u))"

lemma time_sub_le: "minDuration \<le> d \<Longrightarrow> d < maxDuration \<Longrightarrow> time_sub t u \<le> d \<longleftrightarrow> t - u \<le> d"
  by (auto simp: time_sub_def)

lemma time_sub_less: "minDuration \<le> d \<Longrightarrow> d < maxDuration \<Longrightarrow> d < time_sub t u \<longleftrightarrow> d < t - u"
  using time_sub_le [of d t u] by auto

lemma time_sub_self [simp]: "time_sub t t = 0"
  by (simp add: time_sub_def maxDuration_def minDuration_def)

section \<open>Formatting\<close>

fun fmt_d :: "nat \<Rightarrow> string" where
  \<comment> \<open>the verb \<open>%d\<close> on a non-negative integer\<close>
  "fmt_d n = (if n < 10 then [char_of (48 + n)] else fmt_d (n div 10) @ [char_of (48 + n mod 10)])"

declare fmt_d.simps [simp del]

definition fmt_int :: "int \<Rightarrow> string" where
  \<comment> \<open>the verb \<open>%d\<close>\<close>
  "fmt_int i = (if i < 0 then CHR ''-'' # fmt_d (nat (- i)) else fmt_d (nat i))"

fun fmt_bool :: "bool \<Rightarrow> string" where
  \<comment> \<open>the verb \<open>%v\<close> on a Boolean\<close>
  "fmt_bool True = ''true''"
| "fmt_bool False = ''false''"

lemma length_fmt_d: "n < 10 ^ Suc k \<Longrightarrow> length (fmt_d n) \<le> Suc k"
proof (induction n arbitrary: k rule: fmt_d.induct)
  case (1 n)
  show ?case
  proof (cases "n < 10")
    case True
    then show ?thesis by (subst fmt_d.simps) simp
  next
    case False
    then obtain j where "k = Suc j" using 1(2) by (cases k) auto
    then have "n div 10 < 10 ^ Suc j" using 1(2) by (simp add: div_less_iff_less_mult)
    then show ?thesis using 1(1) [OF False, of j] False \<open>k = Suc j\<close>
      by (subst fmt_d.simps) simp
  qed
qed

lemma fmt_d_value: "foldl (\<lambda>n c. n * 10 + (of_char c - 48)) 0 (fmt_d n) = (n::nat)"
  by (induction n rule: fmt_d.induct) (subst fmt_d.simps, simp)

lemma fmt_d_inj [simp]: "fmt_d m = fmt_d n \<longleftrightarrow> m = n"
  by (metis fmt_d_value)

lemma fmt_d_digits: "c \<in> set (fmt_d n) \<Longrightarrow> (48 :: nat) \<le> of_char c \<and> (of_char c :: nat) \<le> 57"
proof (induction n rule: fmt_d.induct)
  case (1 n)
  then show ?case by (subst (asm) (2) fmt_d.simps) (auto split: if_splits)
qed

section \<open>sync.Map\<close>

type_synonym ('k, 'v) sync_map = "('k \<times> 'v) list"

definition sm_load :: "('k, 'v) sync_map \<Rightarrow> 'k \<Rightarrow> 'v option" where
  "sm_load m k = map_of m k"

definition sm_store :: "'k \<Rightarrow> 'v \<Rightarrow> ('k, 'v) sync_map \<Rightarrow> ('k, 'v) sync_map" where
  "sm_store k v m = AList.update k v m"

definition sm_delete :: "'k \<Rightarrow> ('k, 'v) sync_map \<Rightarrow> ('k, 'v) sync_map" where
  "sm_delete k m = AList.delete k m"

fun sm_range :: "('k \<Rightarrow> 'v \<Rightarrow> 's \<Rightarrow> bool \<times> 's) \<Rightarrow> ('k, 'v) sync_map \<Rightarrow> 's \<Rightarrow> 's" where
  \<comment> \<open>\<open>Range\<close> stops when the callback returns false\<close>
  "sm_range f [] s = s"
| "sm_range f ((k, v) # m) s =
     (let (continue, s') = f k v s in if continue then sm_range f m s' else s')"

definition sm_wf :: "('k, 'v) sync_map \<Rightarrow> bool" where
  "sm_wf m \<longleftrightarrow> distinct (map fst m)"

lemma sm_load_Nil [simp]: "sm_load [] k = None"
  by (simp add: sm_load_def)

lemma sm_load_store [simp]: "sm_load (sm_store k v m) k' = (if k' = k then Some v else sm_load m k')"
  by (simp add: sm_load_def sm_store_def update_conv')

lemma sm_load_delete [simp]: "sm_load (sm_delete k m) k' = (if k' = k then None else sm_load m k')"
  by (simp add: sm_load_def sm_delete_def delete_conv')

lemma sm_wf_Nil [simp]: "sm_wf []"
  by (simp add: sm_wf_def)

lemma sm_wf_store [simp]: "sm_wf m \<Longrightarrow> sm_wf (sm_store k v m)"
  by (simp add: sm_wf_def sm_store_def distinct_update)

lemma sm_wf_delete [simp]: "sm_wf m \<Longrightarrow> sm_wf (sm_delete k m)"
  by (simp add: sm_wf_def sm_delete_def distinct_delete)

lemma sm_load_entry: "sm_wf m \<Longrightarrow> sm_load m k = Some v \<longleftrightarrow> (k, v) \<in> set m"
  by (simp add: sm_wf_def sm_load_def map_of_eq_Some_iff)

lemma sm_range_true:
  "sm_range (\<lambda>k v s. (True, g k v s)) m s = fold (\<lambda>(k, v) s. g k v s) m s"
  by (induction m arbitrary: s) auto

text \<open>What the users of a keyed registry rely on: the entry stored under a key is found there until
  it is stored over or deleted, and other keys are untouched.\<close>

datatype ('e, 'k) registry_op = RegAdd 'e | RegRemove 'k

fun registry_step :: "('e \<Rightarrow> 'm \<Rightarrow> 'm) \<Rightarrow> ('k \<Rightarrow> 'm \<Rightarrow> 'm) \<Rightarrow> ('e, 'k) registry_op \<Rightarrow> 'm \<Rightarrow> 'm" where
  "registry_step add rem (RegAdd e) m = add e m"
| "registry_step add rem (RegRemove k) m = rem k m"

fun registry_spec :: "('e \<Rightarrow> 'k) \<Rightarrow> ('e \<Rightarrow> 'v) \<Rightarrow> ('e, 'k) registry_op \<Rightarrow> ('k \<Rightarrow> 'v option) \<Rightarrow> 'k \<Rightarrow> 'v option" where
  "registry_spec key val (RegAdd e) f = f(key e \<mapsto> val e)"
| "registry_spec key val (RegRemove k) f = f(k := None)"

locale registry =
  fixes key :: "'e \<Rightarrow> 'k"
    and val :: "'e \<Rightarrow> 'v"
    and add :: "'e \<Rightarrow> 'm \<Rightarrow> 'm"
    and rem :: "'k \<Rightarrow> 'm \<Rightarrow> 'm"
    and look :: "'m \<Rightarrow> 'k \<Rightarrow> 'v option"
  assumes look_add: "look (add e m) = (look m)(key e \<mapsto> val e)"
    and look_rem: "look (rem k m) = (look m)(k := None)"
begin

lemma look_run:
  "look (fold (registry_step add rem) ops m) = fold (registry_spec key val) ops (look m)"
proof (induction ops arbitrary: m)
  case Nil
  then show ?case by simp
next
  case (Cons opn ops)
  then show ?case
    by (cases opn) (simp_all only: fold_simps registry_step.simps registry_spec.simps look_add look_rem)
qed

lemma look_last_add: "look (add e m) (key e) = Some (val e)"
  using look_add [of e m] by simp

lemma look_other: "k \<noteq> key e \<Longrightarrow> look (add e m) k = look m k"
  using look_add [of e m] by simp

end

section \<open>Channels\<close>

record 'a chan =
  ch_buf :: "'a list"
  ch_cap :: nat
  ch_closed :: bool

definition make_chan :: "nat \<Rightarrow> 'a chan" where
  "make_chan n = \<lparr>ch_buf = [], ch_cap = n, ch_closed = False\<rparr>"

definition chan_close :: "'a chan \<Rightarrow> 'a chan go" where
  "chan_close c = (if ch_closed c then Inl CloseOfClosedChannel else Inr (c\<lparr>ch_closed := True\<rparr>))"

definition try_send :: "'a chan \<Rightarrow> 'a \<Rightarrow> (bool \<times> 'a chan) go" where
  \<comment> \<open>\<open>select { case c <- v: default: }\<close>\<close>
  "try_send c v =
     (if ch_closed c then Inl SendOnClosedChannel
      else if length (ch_buf c) < ch_cap c then Inr (True, c\<lparr>ch_buf := ch_buf c @ [v]\<rparr>)
      else Inr (False, c))"

definition chan_send :: "'a chan \<Rightarrow> 'a \<Rightarrow> 'a chan option go" where
  \<comment> \<open>\<open>c <- v\<close> on a buffered channel; \<open>None\<close>: the sender blocks\<close>
  "chan_send c v =
     (if ch_closed c then Inl SendOnClosedChannel
      else if length (ch_buf c) < ch_cap c then Inr (Some (c\<lparr>ch_buf := ch_buf c @ [v]\<rparr>))
      else Inr None)"

definition chan_recv :: "'a chan \<Rightarrow> ('a option \<times> 'a chan) option" where
  \<comment> \<open>\<open>v, ok := <-c\<close>; \<open>None\<close>: the receiver blocks, \<open>Some (None, _)\<close>: closed and drained\<close>
  "chan_recv c =
     (case ch_buf c of
        v # vs \<Rightarrow> Some (Some v, c\<lparr>ch_buf := vs\<rparr>)
      | [] \<Rightarrow> if ch_closed c then Some (None, c) else None)"

lemma try_send_bounded:
  "length (ch_buf c) \<le> ch_cap c \<Longrightarrow> try_send c v = Inr (b, c') \<Longrightarrow>
    length (ch_buf c') \<le> ch_cap c' \<and> ch_cap c' = ch_cap c \<and> ch_closed c' = ch_closed c"
  by (auto simp: try_send_def split: if_splits)

lemmas chan_ops = chan_close_def try_send_def chan_send_def chan_recv_def make_chan_def

section \<open>Simulation by a reference component\<close>

fun run_outputs :: "('e \<Rightarrow> 's \<Rightarrow> 'o \<times> 's) \<Rightarrow> 'e list \<Rightarrow> 's \<Rightarrow> 'o list \<times> 's" where
  \<comment> \<open>the outputs of a sequence of events\<close>
  "run_outputs step [] s = ([], s)"
| "run_outputs step (e # es) s =
     (let (out, s1) = step e s; (outs, s2) = run_outputs step es s1 in (out # outs, s2))"

fun run_allowed :: "('e \<Rightarrow> 'h \<Rightarrow> bool) \<Rightarrow> ('e \<Rightarrow> 'h \<Rightarrow> 'o \<times> 'h) \<Rightarrow> 'e list \<Rightarrow> 'h \<Rightarrow> bool" where
  \<comment> \<open>every event of the sequence may happen where it does, as judged by the reference\<close>
  "run_allowed ok spec [] h \<longleftrightarrow> True"
| "run_allowed ok spec (e # es) h \<longleftrightarrow> ok e h \<and> run_allowed ok spec es (snd (spec e h))"

locale lockstep =
  fixes impl :: "'e \<Rightarrow> 's \<Rightarrow> 'o \<times> 's"
    and spec :: "'e \<Rightarrow> 'h \<Rightarrow> 'o \<times> 'h"
    and ok :: "'e \<Rightarrow> 'h \<Rightarrow> bool"
    and rel :: "'s \<Rightarrow> 'h \<Rightarrow> bool"
  assumes sim_output: "rel s h \<Longrightarrow> ok e h \<Longrightarrow> fst (impl e s) = fst (spec e h)"
    and sim_state: "rel s h \<Longrightarrow> ok e h \<Longrightarrow> rel (snd (impl e s)) (snd (spec e h))"
begin

lemma run_related:
  "rel s h \<Longrightarrow> run_allowed ok spec es h \<Longrightarrow>
    fst (run_outputs impl es s) = fst (run_outputs spec es h) \<and>
    rel (snd (run_outputs impl es s)) (snd (run_outputs spec es h))"
proof (induction es arbitrary: s h)
  case (Cons e es)
  then show ?case
    using sim_output [of s h e] sim_state [of s h e]
    by (auto simp: Let_def split: prod.splits dest: Cons.IH)
qed simp

lemma run_same_outputs:
  "rel s h \<Longrightarrow> run_allowed ok spec es h \<Longrightarrow>
    fst (run_outputs impl es s) = fst (run_outputs spec es h)"
  using run_related by blast

end

end
