(* ===== verification/Codec.thy ===== *)
theory Codec
  imports Prelude
begin

text \<open>
  The binary frame format of \<open>gateway/pkg/codec/frame.go\<close>: a type byte, a session count byte and,
  per session, a big-endian 32-bit id, a big-endian 16-bit length and the data. The model keeps
  the buffer, the running offset and every bounds check of the Go code. \<open>encode_spec\<close> is the
  format written as plain concatenation; the lemmas relate both directions of the code to it.
\<close>

section \<open>Frames\<close>

definition FrameTypeHeartbeat :: byte where "FrameTypeHeartbeat = 1"
definition FrameTypeTerminalOutput :: byte where "FrameTypeTerminalOutput = 2"
definition FrameTypeTerminalInput :: byte where "FrameTypeTerminalInput = 3"
definition FrameTypeWindowResize :: byte where "FrameTypeWindowResize = 4"
definition FrameTypeSessionControl :: byte where "FrameTypeSessionControl = 5"

datatype codec_error = ErrBufferTooSmall | ErrInvalidFrame

record SessionBlock =
  SB_SessionID :: u32
  SB_Length :: u16
  SB_Data :: "byte list"

record Frame =
  F_Type :: byte
  F_SessionCount :: byte
  F_Sessions :: "SessionBlock list"

section \<open>Serialize\<close>

fun total_len :: "SessionBlock list \<Rightarrow> nat" where
  "total_len [] = 0"
| "total_len (s # ss) = 4 + 2 + length (SB_Data s) + total_len ss"

fun write_blocks :: "byte list \<Rightarrow> nat \<Rightarrow> SessionBlock list \<Rightarrow> byte list go" where
  "write_blocks buf off [] = Inr buf"
| "write_blocks buf off (s # ss) =
     (case store_at buf off (be32 (SB_SessionID s)) of
        Inl p \<Rightarrow> Inl p
      | Inr buf1 \<Rightarrow>
     (case store_at buf1 (off + 4) (be16 (SB_Length s)) of
        Inl p \<Rightarrow> Inl p
      | Inr buf2 \<Rightarrow>
     (case copy_into buf2 (off + 6) (SB_Data s) of
        Inl p \<Rightarrow> Inl p
      | Inr buf3 \<Rightarrow> write_blocks buf3 (off + 6 + unat (SB_Length s)) ss)))"

definition Serialize :: "Frame \<Rightarrow> byte list go" where
  "Serialize f =
     (let buf = replicate (2 + total_len (F_Sessions f)) 0;
          buf = buf[0 := F_Type f];
          buf = buf[1 := F_SessionCount f]
      in write_blocks buf 2 (F_Sessions f))"

section \<open>Deserialize\<close>

fun parse_blocks ::
  "nat \<Rightarrow> byte list \<Rightarrow> nat \<Rightarrow> SessionBlock list \<Rightarrow> codec_error + SessionBlock list" where
  \<comment> \<open>the first argument is \<open>sessionCount - i\<close>: the \<open>uint8\<close> counter stays below \<open>sessionCount\<close>\<close>
  "parse_blocks 0 data off sessions = Inr sessions"
| "parse_blocks (Suc n) data off sessions =
     (if length data < off + 6 then Inl ErrBufferTooSmall
      else
        (let sessionID = of_be32 (drop off data);
             len = of_be16 (drop (off + 4) data)
         in if length data < off + 6 + unat len then Inl ErrBufferTooSmall
            else parse_blocks n data (off + 6 + unat len)
              (sessions @ [\<lparr>SB_SessionID = sessionID, SB_Length = len,
                 SB_Data = take (unat len) (drop (off + 6) data)\<rparr>])))"

definition Deserialize :: "byte list \<Rightarrow> codec_error + Frame" where
  "Deserialize data =
     (if length data < 2 then Inl ErrBufferTooSmall
      else
        (let frameType = data ! 0; sessionCount = data ! 1
         in case parse_blocks (unat sessionCount) data 2 [] of
              Inl e \<Rightarrow> Inl e
            | Inr sessions \<Rightarrow> Inr \<lparr>F_Type = frameType, F_SessionCount = sessionCount,
                F_Sessions = sessions\<rparr>))"

section \<open>The format as a specification\<close>

definition enc_block :: "SessionBlock \<Rightarrow> byte list" where
  "enc_block s = be32 (SB_SessionID s) @ be16 (SB_Length s) @ SB_Data s"

definition encode_spec :: "Frame \<Rightarrow> byte list" where
  "encode_spec f = [F_Type f, F_SessionCount f] @ concat (map enc_block (F_Sessions f))"

definition wf_block :: "SessionBlock \<Rightarrow> bool" where
  "wf_block s \<longleftrightarrow> unat (SB_Length s) = length (SB_Data s)"

definition wf_frame :: "Frame \<Rightarrow> bool" where
  "wf_frame f \<longleftrightarrow> unat (F_SessionCount f) = length (F_Sessions f) \<and> list_all wf_block (F_Sessions f)"

text \<open>An encoder and a decoder that agree on the frames a sender may build.\<close>

locale framing =
  fixes encode :: "'f \<Rightarrow> byte list go"
    and decode :: "byte list \<Rightarrow> 'e + 'f"
    and ok :: "'f \<Rightarrow> bool"
  assumes encode_total: "ok f \<Longrightarrow> \<exists>bs. encode f = Inr bs"
    and decode_encode: "ok f \<Longrightarrow> encode f = Inr bs \<Longrightarrow> decode (bs @ rest) = Inr f"
begin

lemma roundtrip: "ok f \<Longrightarrow> \<exists>bs. encode f = Inr bs \<and> decode bs = Inr f"
  using encode_total [of f] decode_encode [of f _ "[]"] by auto

lemma encode_inj: "ok f \<Longrightarrow> ok g \<Longrightarrow> encode f = encode g \<Longrightarrow> f = g"
  by (metis roundtrip Inr_inject)

lemma prefix_free:
  assumes "ok f" "ok g" "encode f = Inr bs" "encode g = Inr (bs @ rest)"
  shows "f = g \<and> rest = []"
proof -
  have "decode (bs @ rest) = Inr f" "decode (bs @ rest) = Inr g"
    using assms decode_encode [of f bs rest] decode_encode [of g "bs @ rest" "[]"] by auto
  then have "f = g" by simp
  with assms show ?thesis by simp
qed

end

section \<open>Serialize computes the format\<close>

lemma length_enc_block [simp]: "length (enc_block s) = 6 + length (SB_Data s)"
  by (simp add: enc_block_def)

lemma total_len_concat: "total_len ss = length (concat (map enc_block ss))"
  by (induction ss) auto

lemma store_at_append:
  "off = length pre \<Longrightarrow> length xs = length mid \<Longrightarrow>
    store_at (pre @ mid @ post) off xs = Inr (pre @ xs @ post)"
  by (simp add: store_at_def put_at_append)

lemma copy_into_append:
  "off = length pre \<Longrightarrow> length xs = length mid \<Longrightarrow>
    copy_into (pre @ mid @ post) off xs = Inr (pre @ xs @ post)"
  by (simp add: copy_into_def copy_at_append)

lemma write_block_wf:
  assumes "wf_block s" and "off = length pre" and "6 + length (SB_Data s) \<le> length post"
  shows "write_blocks (pre @ post) off (s # ss) =
    write_blocks (pre @ enc_block s @ drop (6 + length (SB_Data s)) post)
      (length (pre @ enc_block s)) ss"
proof -
  let ?n = "length (SB_Data s)"
  define p4 where "p4 = take 4 post"
  define p2 where "p2 = take 2 (drop 4 post)"
  define pd where "pd = take ?n (drop 6 post)"
  define pr where "pr = drop (6 + ?n) post"
  have post: "post = p4 @ p2 @ pd @ pr"
    using split_take3 [of post 4 2 ?n] by (simp add: p4_def p2_def pd_def pr_def)
  have len: "length p4 = 4" "length p2 = 2" "length pd = ?n"
    using assms(3) by (auto simp: p4_def p2_def pd_def)
  have 1: "store_at (pre @ post) off (be32 (SB_SessionID s)) =
      Inr (pre @ be32 (SB_SessionID s) @ p2 @ pd @ pr)"
    using store_at_append [of off pre "be32 (SB_SessionID s)" p4 "p2 @ pd @ pr"]
    by (simp add: post len assms(2))
  have 2: "store_at (pre @ be32 (SB_SessionID s) @ p2 @ pd @ pr) (off + 4) (be16 (SB_Length s)) =
      Inr (pre @ be32 (SB_SessionID s) @ be16 (SB_Length s) @ pd @ pr)"
    using store_at_append [of "off + 4" "pre @ be32 (SB_SessionID s)" "be16 (SB_Length s)" p2
        "pd @ pr"] by (simp add: len assms(2))
  have 3: "copy_into (pre @ be32 (SB_SessionID s) @ be16 (SB_Length s) @ pd @ pr) (off + 6)
      (SB_Data s) = Inr (pre @ enc_block s @ pr)"
    using copy_into_append [of "off + 6" "pre @ be32 (SB_SessionID s) @ be16 (SB_Length s)"
        "SB_Data s" pd pr] by (simp add: len assms(2) enc_block_def)
  from assms(1) show ?thesis
    by (simp add: 1 2 3 wf_block_def assms(2) [symmetric] add.assoc flip: pr_def)
qed

lemma write_blocks_wf:
  "list_all wf_block ss \<Longrightarrow> off = length pre \<Longrightarrow> total_len ss = length post \<Longrightarrow>
    write_blocks (pre @ post) off ss = Inr (pre @ concat (map enc_block ss))"
proof (induction ss arbitrary: pre post off)
  case Nil
  then show ?case by simp
next
  case (Cons s ss)
  then have "write_blocks (pre @ post) off (s # ss) =
      write_blocks ((pre @ enc_block s) @ drop (6 + length (SB_Data s)) post)
        (length (pre @ enc_block s)) ss"
    using write_block_wf [of s off pre post ss] by simp
  also have "\<dots> = Inr ((pre @ enc_block s) @ concat (map enc_block ss))"
    using Cons.prems by (intro Cons.IH) auto
  finally show ?case by simp
qed

lemma replicate_header: "(replicate (2 + n) 0)[0 := a, 1 := b] = [a, b] @ replicate n 0"
  by (simp add: numeral_2_eq_2)

lemma Serialize_spec:
  "list_all wf_block (F_Sessions f) \<Longrightarrow> Serialize f = Inr (encode_spec f)"
  using write_blocks_wf [of "F_Sessions f" 2 "[F_Type f, F_SessionCount f]"
      "replicate (total_len (F_Sessions f)) 0"]
  by (simp add: Serialize_def encode_spec_def replicate_header [unfolded One_nat_def])

text \<open>Without the equality of length field and data, the code still cannot run past its buffer as
  long as no length field exceeds its data; a length field that does can.\<close>

lemma store_at_ok: "off + length xs \<le> length b \<Longrightarrow> store_at b off xs = Inr (put_at off xs b)"
  by (simp add: store_at_def)

lemma copy_into_ok: "off \<le> length b \<Longrightarrow> copy_into b off xs = Inr (copy_at off xs b)"
  by (simp add: copy_into_def)

lemma write_blocks_no_panic:
  "\<forall>s\<in>set ss. unat (SB_Length s) \<le> length (SB_Data s) \<Longrightarrow> off + total_len ss \<le> length buf \<Longrightarrow>
    \<exists>out. write_blocks buf off ss = Inr out \<and> length out = length buf"
proof (induction ss arbitrary: buf off)
  case Nil
  then show ?case by simp
next
  case (Cons s ss)
  define buf1 where "buf1 = put_at off (be32 (SB_SessionID s)) buf"
  define buf2 where "buf2 = put_at (off + 4) (be16 (SB_Length s)) buf1"
  define buf3 where "buf3 = copy_at (off + 6) (SB_Data s) buf2"
  have len: "length buf1 = length buf" "length buf2 = length buf" "length buf3 = length buf"
    using Cons.prems(2) by (simp_all add: buf1_def buf2_def buf3_def)
  have step: "write_blocks buf off (s # ss) = write_blocks buf3 (off + 6 + unat (SB_Length s)) ss"
    using Cons.prems(2) len
    by (simp add: store_at_ok copy_into_ok flip: buf1_def buf2_def buf3_def)
  have "\<exists>out. write_blocks buf3 (off + 6 + unat (SB_Length s)) ss = Inr out \<and> length out = length buf3"
    using Cons.prems len by (intro Cons.IH) auto
  with step len show ?case by simp
qed

section \<open>Deserialize inverts the format\<close>

lemma parse_block_step:
  assumes "wf_block s" and "off = length pre"
  shows "parse_blocks (Suc n) (pre @ enc_block s @ rest) off acc =
    parse_blocks n ((pre @ enc_block s) @ rest) (length (pre @ enc_block s)) (acc @ [s])"
proof -
  have "drop (off + 4) (pre @ enc_block s @ rest) = be16 (SB_Length s) @ SB_Data s @ rest"
    "drop (off + 6) (pre @ enc_block s @ rest) = SB_Data s @ rest"
    using assms(2) by (simp_all add: enc_block_def)
  moreover have "drop off (pre @ enc_block s @ rest) =
      be32 (SB_SessionID s) @ be16 (SB_Length s) @ SB_Data s @ rest"
    using assms(2) by (simp add: enc_block_def)
  ultimately show ?thesis
    using assms by (cases s) (simp add: wf_block_def add.assoc Let_def)
qed

lemma parse_blocks_encoded:
  "list_all wf_block ss \<Longrightarrow> off = length pre \<Longrightarrow>
    parse_blocks (length ss) (pre @ concat (map enc_block ss) @ rest) off acc = Inr (acc @ ss)"
proof (induction ss arbitrary: pre off acc)
  case Nil
  then show ?case by simp
next
  case (Cons s ss)
  then have "parse_blocks (length (s # ss)) (pre @ concat (map enc_block (s # ss)) @ rest) off acc =
      parse_blocks (length ss) ((pre @ enc_block s) @ concat (map enc_block ss) @ rest)
        (length (pre @ enc_block s)) (acc @ [s])"
    using parse_block_step [of s off pre "length ss" "concat (map enc_block ss) @ rest" acc] by simp
  also have "\<dots> = Inr ((acc @ [s]) @ ss)"
    using Cons.prems by (intro Cons.IH) auto
  finally show ?case by simp
qed

lemma Deserialize_encoded: "wf_frame f \<Longrightarrow> Deserialize (encode_spec f @ rest) = Inr f"
  using parse_blocks_encoded [of "F_Sessions f" 2 "[F_Type f, F_SessionCount f]" rest "[]"]
  by (simp add: Deserialize_def encode_spec_def wf_frame_def)

interpretation codec: framing Serialize Deserialize wf_frame
  by unfold_locales (auto simp: Serialize_spec wf_frame_def Deserialize_encoded)

text \<open>A successful parse read exactly one encoded block per counted session.\<close>

lemma be_prefix:
  "4 \<le> length xs \<Longrightarrow> be32 (of_be32 xs) = take 4 xs"
  "2 \<le> length ys \<Longrightarrow> be16 (of_be16 ys) = take 2 ys"
  by (auto simp: be32_of_be32 be16_of_be16 eval_nat_numeral Suc_le_length_iff)

lemma parsed_block:
  assumes "off + 6 + unat (of_be16 (drop (off + 4) data)) \<le> length data"
    and "s = \<lparr>SB_SessionID = of_be32 (drop off data), SB_Length = of_be16 (drop (off + 4) data),
      SB_Data = take (unat (of_be16 (drop (off + 4) data))) (drop (off + 6) data)\<rparr>"
  shows "wf_block s \<and> drop off data = enc_block s @ drop (off + length (enc_block s)) data"
proof -
  let ?n = "unat (of_be16 (drop (off + 4) data))"
  have len: "length (SB_Data s) = ?n" using assms by simp
  have "be32 (SB_SessionID s) = take 4 (drop off data)"
    "be16 (SB_Length s) = take 2 (drop 4 (drop off data))"
    "SB_Data s = take ?n (drop (4 + 2) (drop off data))"
    using assms by (simp_all add: be_prefix add.commute)
  then have "drop off data = enc_block s @ drop (4 + 2 + ?n) (drop off data)"
    using split_take3 [of "drop off data" 4 2 ?n] by (simp add: enc_block_def)
  moreover have "wf_block s" using len assms(2) by (simp add: wf_block_def)
  ultimately show ?thesis using len by (simp add: add.commute add.left_commute)
qed

lemma parse_blocks_sound:
  "parse_blocks n data off acc = Inr out \<Longrightarrow> \<exists>ss rest. out = acc @ ss \<and> length ss = n \<and>
    list_all wf_block ss \<and> drop off data = concat (map enc_block ss) @ rest"
proof (induction n data off acc rule: parse_blocks.induct)
  case (1 data off sessions)
  then show ?case by auto
next
  case (2 n data off sessions)
  define len where "len = of_be16 (drop (off + 4) data)"
  define s where "s = \<lparr>SB_SessionID = of_be32 (drop off data), SB_Length = len,
    SB_Data = take (unat len) (drop (off + 6) data)\<rparr>"
  have bound: "\<not> length data < off + 6" "\<not> length data < off + 6 + unat len"
    and rec: "parse_blocks n data (off + 6 + unat len) (sessions @ [s]) = Inr out"
    using "2.prems" by (auto simp: len_def s_def Let_def split: if_splits)
  obtain ss rest where ss: "out = (sessions @ [s]) @ ss" "length ss = n" "list_all wf_block ss"
    "drop (off + 6 + unat len) data = concat (map enc_block ss) @ rest"
    using "2.IH" [OF bound(1) refl len_def] bound(2) rec unfolding s_def by blast
  have "wf_block s \<and> drop off data = enc_block s @ drop (off + length (enc_block s)) data"
    using bound(2) by (intro parsed_block) (auto simp: len_def s_def)
  moreover have "off + length (enc_block s) = off + 6 + unat len"
    using bound(2) by (simp add: s_def)
  ultimately have "out = sessions @ (s # ss) \<and> length (s # ss) = Suc n \<and>
      list_all wf_block (s # ss) \<and> drop off data = concat (map enc_block (s # ss)) @ rest"
    using ss by (simp add: add.assoc)
  then show ?case by blast
qed

lemma Deserialize_sound:
  assumes "Deserialize data = Inr f"
  shows "wf_frame f \<and> (\<exists>rest. data = encode_spec f @ rest)"
proof -
  from assms have len: "\<not> length data < 2"
    and parse: "parse_blocks (unat (data ! 1)) data 2 [] = Inr (F_Sessions f)"
    and fields: "F_Type f = data ! 0" "F_SessionCount f = data ! 1"
    by (auto simp: Deserialize_def Let_def split: if_splits sum.splits)
  obtain ss rest where ss: "F_Sessions f = ss" "length ss = unat (data ! 1)" "list_all wf_block ss"
    "drop 2 data = concat (map enc_block ss) @ rest"
    using parse_blocks_sound [OF parse] by auto
  have "data = [data ! 0, data ! 1] @ drop 2 data"
    using len by (cases data; cases "tl data") auto
  then show ?thesis
    using ss fields by (auto simp: wf_frame_def encode_spec_def)
qed

lemma parse_blocks_error: "parse_blocks n data off acc = Inl e \<Longrightarrow> e = ErrBufferTooSmall"
  by (induction n data off acc rule: parse_blocks.induct) (auto simp: Let_def split: if_splits)

lemma Deserialize_error: "Deserialize data = Inl e \<Longrightarrow> e = ErrBufferTooSmall"
  by (auto simp: Deserialize_def Let_def split: if_splits sum.splits dest: parse_blocks_error)

section \<open>Properties\<close>

definition example_frame :: Frame where
  \<comment> \<open>the frame of \<open>TestFrameSerializeDeserialize\<close>\<close>
  "example_frame = \<lparr>F_Type = FrameTypeTerminalOutput, F_SessionCount = 1,
     F_Sessions = [\<lparr>SB_SessionID = 12345, SB_Length = 5, SB_Data = [104, 101, 108, 108, 111]\<rparr>]\<rparr>"

lemma wf_example_frame [simp]: "wf_frame example_frame"
  by (simp add: wf_frame_def wf_block_def example_frame_def)

text \<open>C8: a well-formed frame (count and length fields agree with the data) serializes without
  panicking, and deserializing the bytes, with anything behind them, gives the frame back.\<close>

theorem codec_roundtrip:
  assumes "wf_frame f"
  shows "\<exists>bs. Serialize f = Inr bs \<and> Deserialize (bs @ rest) = Inr f"
  using codec.encode_total [OF assms] codec.decode_encode [OF assms] by blast

theorem codec_roundtrip_witness:
  "\<exists>bs. Serialize example_frame = Inr bs \<and> Deserialize (bs @ [7, 7]) = Inr example_frame"
  by (rule codec_roundtrip [OF wf_example_frame])

text \<open>C24: \<open>Deserialize\<close> accepts exactly the byte strings that start with the format of a well-formed
  frame, returns that frame and ignores what follows; every other input is \<open>ErrBufferTooSmall\<close>.\<close>

theorem deserialize_exact:
  "(Deserialize data = Inr f \<longleftrightarrow> wf_frame f \<and> (\<exists>rest. data = encode_spec f @ rest)) \<and>
   (Deserialize data = Inl e \<longleftrightarrow>
      e = ErrBufferTooSmall \<and> (\<forall>g rest. \<not> (wf_frame g \<and> data = encode_spec g @ rest)))"
proof (cases "Deserialize data")
  case (Inl e')
  then have "e' = ErrBufferTooSmall" by (rule Deserialize_error)
  with Inl show ?thesis by (auto simp: Deserialize_encoded)
next
  case (Inr g)
  with Deserialize_sound [OF Inr] show ?thesis by (auto simp: Deserialize_encoded)
qed

text \<open>A frame cut anywhere before its end is rejected.\<close>

theorem truncated_frame_rejected:
  assumes "wf_frame f" and "n < length (encode_spec f)"
  shows "Deserialize (take n (encode_spec f)) = Inl ErrBufferTooSmall"
proof (cases "Deserialize (take n (encode_spec f))")
  case (Inl e)
  then show ?thesis by (auto dest: Deserialize_error)
next
  case (Inr g)
  then obtain rest where g: "wf_frame g" "take n (encode_spec f) = encode_spec g @ rest"
    using Deserialize_sound by blast
  then have "encode_spec f = encode_spec g @ (rest @ drop n (encode_spec f))"
    by (metis append.assoc append_take_drop_id)
  moreover have "Serialize h = Inr (encode_spec h)" if "wf_frame h" for h
    using that by (simp add: wf_frame_def Serialize_spec)
  ultimately have "g = f \<and> rest @ drop n (encode_spec f) = []"
    using codec.prefix_free [OF g(1) assms(1)] g(1) assms(1) by metis
  with assms(2) show ?thesis by simp
qed

theorem truncated_frame_rejected_witness:
  "Deserialize (take 12 (encode_spec example_frame)) = Inl ErrBufferTooSmall"
  by (rule truncated_frame_rejected [OF wf_example_frame])
    (simp add: encode_spec_def example_frame_def)

end
