(* ===== verification/BufferPool.thy ===== *)
theory BufferPool
  imports Prelude
begin

text \<open>
  The byte-buffer pool of \<open>gateway/pkg/buffer/pool.go\<close>: three \<open>sync.Pool\<close>s of fixed capacity.
  A slice is its backing array (whose length is the capacity) and its length. \<open>sync.Pool.Get\<close> may
  hand out any pooled item or make a new one, and the collector may drop pooled items: the item
  picked is an argument of the model, dropping is an operation of its own.
\<close>

section \<open>Slices\<close>

record slice =
  arr :: "byte list"
  slen :: nat

definition scap :: "slice \<Rightarrow> nat" where
  "scap s = length (arr s)"

definition make_slice :: "nat \<Rightarrow> slice" where
  "make_slice n = \<lparr>arr = replicate n 0, slen = n\<rparr>"

definition reslice :: "slice \<Rightarrow> nat \<Rightarrow> slice go" where
  \<comment> \<open>\<open>s[:n]\<close> may extend the slice up to its capacity\<close>
  "reslice s n = (if scap s < n then Inl SliceBoundsOutOfRange else Inr (s\<lparr>slen := n\<rparr>))"

definition visible :: "slice \<Rightarrow> byte list" where
  "visible s = take (slen s) (arr s)"

lemma scap_make_slice [simp]: "scap (make_slice n) = n"
  by (simp add: scap_def make_slice_def)

lemma scap_slen_update [simp]: "scap (s\<lparr>slen := n\<rparr>) = scap s"
  by (simp add: scap_def)

lemma reslice_0 [simp]: "reslice s 0 = Inr (s\<lparr>slen := 0\<rparr>)"
  by (simp add: reslice_def)

section \<open>The pool\<close>

record Pool =
  small :: "slice list"
  medium :: "slice list"
  large :: "slice list"

definition NewPool :: Pool where
  "NewPool = \<lparr>small = [], medium = [], large = []\<rparr>"

definition sync_get :: "nat \<Rightarrow> slice list \<Rightarrow> nat option \<Rightarrow> slice \<times> slice list" where
  \<comment> \<open>\<open>sync.Pool.Get\<close> with \<open>New\<close> making a slice of the given size: \<open>pick\<close> chooses the pooled item\<close>
  "sync_get sz items pick =
     (case pick of
        Some i \<Rightarrow> if i < length items then (items ! i, take i items @ drop (Suc i) items)
                  else (make_slice sz, items)
      | None \<Rightarrow> (make_slice sz, items))"

definition Get :: "Pool \<Rightarrow> int \<Rightarrow> nat option \<Rightarrow> (slice \<times> Pool) go" where
  "Get p sz pick =
     (if sz \<le> 256 then
        (let (b, rest) = sync_get 256 (small p) pick in
         case reslice b 0 of Inl e \<Rightarrow> Inl e | Inr b' \<Rightarrow> Inr (b', p\<lparr>small := rest\<rparr>))
      else if sz \<le> 4096 then
        (let (b, rest) = sync_get 4096 (medium p) pick in
         case reslice b 0 of Inl e \<Rightarrow> Inl e | Inr b' \<Rightarrow> Inr (b', p\<lparr>medium := rest\<rparr>))
      else
        (let (b, rest) = sync_get 32768 (large p) pick in
         case reslice b 0 of Inl e \<Rightarrow> Inl e | Inr b' \<Rightarrow> Inr (b', p\<lparr>large := rest\<rparr>)))"

definition Put :: "Pool \<Rightarrow> slice \<Rightarrow> Pool go" where
  "Put p buf =
     (if scap buf = 256 then
        (case reslice buf 256 of Inl e \<Rightarrow> Inl e | Inr b \<Rightarrow> Inr (p\<lparr>small := b # small p\<rparr>))
      else if scap buf = 4096 then
        (case reslice buf 4096 of Inl e \<Rightarrow> Inl e | Inr b \<Rightarrow> Inr (p\<lparr>medium := b # medium p\<rparr>))
      else if scap buf = 32768 then
        (case reslice buf 32768 of Inl e \<Rightarrow> Inl e | Inr b \<Rightarrow> Inr (p\<lparr>large := b # large p\<rparr>))
      else Inr p)"

definition pool_gc :: "Pool \<Rightarrow> (slice \<Rightarrow> bool) \<Rightarrow> Pool" where
  \<comment> \<open>the collector keeps some of the pooled items\<close>
  "pool_gc p keep =
     \<lparr>small = filter keep (small p), medium = filter keep (medium p), large = filter keep (large p)\<rparr>"

definition pool_inv :: "Pool \<Rightarrow> bool" where
  "pool_inv p \<longleftrightarrow>
     list_all (\<lambda>s. scap s = 256 \<and> slen s = 256) (small p) \<and>
     list_all (\<lambda>s. scap s = 4096 \<and> slen s = 4096) (medium p) \<and>
     list_all (\<lambda>s. scap s = 32768 \<and> slen s = 32768) (large p)"

definition capacity_class :: "int \<Rightarrow> nat" where
  "capacity_class sz = (if sz \<le> 256 then 256 else if sz \<le> 4096 then 4096 else 32768)"

text \<open>A source of scratch buffers, as its clients see it: buffers come out empty.\<close>

locale buffer_source =
  fixes get :: "'p \<Rightarrow> int \<Rightarrow> nat option \<Rightarrow> (slice \<times> 'p) go"
    and put :: "'p \<Rightarrow> slice \<Rightarrow> 'p go"
    and inv :: "'p \<Rightarrow> bool"
    and class_of :: "int \<Rightarrow> nat"
  assumes get_buffer: "inv p \<Longrightarrow>
      \<exists>b p'. get p sz pick = Inr (b, p') \<and> inv p' \<and> slen b = 0 \<and> scap b = class_of sz"
    and put_buffer: "inv p \<Longrightarrow> \<exists>p'. put p b = Inr p' \<and> inv p'"
begin

lemma get_visible: "inv p \<Longrightarrow> get p sz pick = Inr (b, p') \<Longrightarrow> visible b = [] \<and> inv p'"
  using get_buffer [of p sz pick] by (auto simp: visible_def)

lemma borrow_return:
  "inv p \<Longrightarrow> \<exists>b p' p''. get p sz pick = Inr (b, p') \<and> visible b = [] \<and>
    put p' b = Inr p'' \<and> inv p' \<and> inv p''"
  using get_buffer [of p sz pick] put_buffer by (fastforce simp: visible_def)

end

section \<open>Correctness\<close>

lemma list_all_remove: "list_all P xs \<Longrightarrow> list_all P (take i xs @ drop (Suc i) xs)"
  by (auto simp: list_all_iff dest: in_set_takeD in_set_dropD)

lemma sync_get_class:
  assumes "list_all (\<lambda>s. scap s = n \<and> slen s = n) items"
  shows "\<exists>b rest. sync_get n items pick = (b, rest) \<and> scap b = n \<and>
    list_all (\<lambda>s. scap s = n \<and> slen s = n) rest"
  using assms list_all_remove [OF assms]
  by (auto simp: sync_get_def list_all_length split: option.splits)

lemma Get_class:
  assumes "pool_inv p"
  shows "\<exists>b p'. Get p sz pick = Inr (b, p') \<and> pool_inv p' \<and> slen b = 0 \<and> scap b = capacity_class sz"
proof -
  obtain b1 r1 where 1: "sync_get 256 (small p) pick = (b1, r1)" "scap b1 = 256"
    "list_all (\<lambda>s. scap s = 256 \<and> slen s = 256) r1"
    using assms sync_get_class unfolding pool_inv_def by blast
  obtain b2 r2 where 2: "sync_get 4096 (medium p) pick = (b2, r2)" "scap b2 = 4096"
    "list_all (\<lambda>s. scap s = 4096 \<and> slen s = 4096) r2"
    using assms sync_get_class unfolding pool_inv_def by blast
  obtain b3 r3 where 3: "sync_get 32768 (large p) pick = (b3, r3)" "scap b3 = 32768"
    "list_all (\<lambda>s. scap s = 32768 \<and> slen s = 32768) r3"
    using assms sync_get_class unfolding pool_inv_def by blast
  from assms 1 2 3 show ?thesis
    by (simp add: Get_def capacity_class_def pool_inv_def)
qed

lemma Put_inv: "pool_inv p \<Longrightarrow> \<exists>p'. Put p b = Inr p' \<and> pool_inv p'"
  by (simp add: Put_def pool_inv_def reslice_def)

lemma pool_gc_inv: "pool_inv p \<Longrightarrow> pool_inv (pool_gc p keep)"
  by (auto simp: pool_inv_def pool_gc_def list_all_iff)

interpretation pool: buffer_source Get Put pool_inv capacity_class
  by unfold_locales (simp_all add: Get_class Put_inv)

inductive pool_reachable :: "Pool \<Rightarrow> bool" where
  new: "pool_reachable NewPool"
| get: "pool_reachable p \<Longrightarrow> Get p sz pick = Inr (b, p') \<Longrightarrow> pool_reachable p'"
| put: "pool_reachable p \<Longrightarrow> Put p b = Inr p' \<Longrightarrow> pool_reachable p'"
| gc: "pool_reachable p \<Longrightarrow> pool_reachable (pool_gc p keep)"

lemma pool_reachable_inv: "pool_reachable p \<Longrightarrow> pool_inv p"
proof (induction rule: pool_reachable.induct)
  case new
  show ?case by (simp add: pool_inv_def NewPool_def)
next
  case (get p sz pick b p')
  then show ?case using Get_class [of p sz pick] by auto
next
  case (put p b p')
  then show ?case using Put_inv [of p b] by auto
next
  case (gc p keep)
  then show ?case by (simp add: pool_gc_inv)
qed

section \<open>Properties\<close>

text \<open>In every state the pool can reach, under any use of \<open>Get\<close>, \<open>Put\<close> (of foreign buffers too)
  and the collector, \<open>Get\<close> does not panic and returns a buffer of length 0 whose capacity is the
  size class; the capacity is enough for the requested size exactly up to 32768 bytes.\<close>

theorem pool_get_capacity:
  assumes "pool_reachable p"
  shows "\<exists>b p'. Get p sz pick = Inr (b, p') \<and> slen b = 0 \<and> scap b = capacity_class sz \<and>
    (sz \<le> int (scap b) \<longleftrightarrow> sz \<le> 32768)"
  using pool.get_buffer [OF pool_reachable_inv [OF assms], of sz pick]
  by (auto simp: capacity_class_def)

theorem pool_get_capacity_witness:
  "\<exists>b p'. Get (NewPool\<lparr>medium := [make_slice 4096]\<rparr>) 4000 (Some 0) = Inr (b, p') \<and> slen b = 0 \<and>
    scap b = capacity_class 4000 \<and> (4000 \<le> int (scap b) \<longleftrightarrow> 4000 \<le> (32768::int))"
proof (rule pool_get_capacity)
  have "Put NewPool (make_slice 4096) = Inr (NewPool\<lparr>medium := [make_slice 4096]\<rparr>)"
    by (simp add: Put_def NewPool_def reslice_def make_slice_def scap_def)
  then show "pool_reachable (NewPool\<lparr>medium := [make_slice 4096]\<rparr>)"
    by (rule pool_reachable.put [OF pool_reachable.new])
qed

end
