(* ===== verification/RingBuffer.thy ===== *)
theory RingBuffer
  imports Prelude
begin

text \<open>
  The per-session output buffer of \<open>gateway/internal/router/buffer.go\<close>: a 1 MiB array with two
  \<open>int64\<close> cursors that only grow, \<open>Write\<close>, a blocking \<open>Read\<close>, a non-blocking \<open>TryRead\<close>, the water
  marks and \<open>Close\<close>. The abstraction is the list of unread bytes. The cursors keep their width
  (\<open>wrap64\<close>), the remainder is Go's, and each slice expression keeps its bounds check.
\<close>

section \<open>State and operations\<close>

definition BufferSize :: nat where "BufferSize = 1024 * 1024"
definition WaterMarkHigh :: nat where "WaterMarkHigh = BufferSize * 85 div 100"
definition WaterMarkLow :: nat where "WaterMarkLow = BufferSize * 50 div 100"

datatype io_error = EOF | ErrBufferFull | ErrBufferEmpty

record RingBuffer =
  rb_data :: "byte list"
  rb_write :: int
  rb_read :: int
  rb_closed :: bool

definition NewRingBuffer :: RingBuffer where
  "NewRingBuffer =
     \<lparr>rb_data = replicate BufferSize 0, rb_write = 0, rb_read = 0, rb_closed = False\<rparr>"

definition Available :: "RingBuffer \<Rightarrow> int" where
  "Available rb = wrap64 (rb_write rb - rb_read rb)"

definition rb_copy_in :: "RingBuffer \<Rightarrow> byte list \<Rightarrow> (nat \<times> RingBuffer) go" where
  \<comment> \<open>\<open>n := copy(rb.data[rb.write.Load()%BufferSize:], p); rb.write.Add(int64(n))\<close>\<close>
  "rb_copy_in rb p =
     (let pos = go_rem (rb_write rb) (int BufferSize) in
      if pos < 0 \<or> int (length (rb_data rb)) < pos then Inl SliceBoundsOutOfRange
      else
        (let n = min (length (rb_data rb) - nat pos) (length p)
         in Inr (n, rb\<lparr>rb_data := copy_at (nat pos) p (rb_data rb),
                       rb_write := wrap64 (rb_write rb + int n)\<rparr>)))"

definition RB_Write :: "RingBuffer \<Rightarrow> byte list \<Rightarrow> ((nat \<times> io_error option) \<times> RingBuffer) go" where
  "RB_Write rb p =
     (if rb_closed rb then Inr ((0, Some EOF), rb)
      else
        (let available = int BufferSize - wrap64 (rb_write rb - rb_read rb) in
         if available < int (length p)
         then (case rb_copy_in rb p of
                 Inl e \<Rightarrow> Inl e
               | Inr (n, rb') \<Rightarrow> Inr ((n, Some ErrBufferFull), rb'))
         else (case rb_copy_in rb p of
                 Inl e \<Rightarrow> Inl e
               | Inr (n, rb') \<Rightarrow> Inr ((n, None), rb'))))"

datatype 'a blocking = Blocked | Returned 'a

definition RB_Read ::
  "RingBuffer \<Rightarrow> byte list \<Rightarrow> ((nat \<times> io_error option) \<times> byte list \<times> RingBuffer) blocking go" where
  \<comment> \<open>\<open>Blocked\<close>: the caller waits on the condition variable until a writer or \<open>Close\<close> wakes it\<close>
  "RB_Read rb p =
     (if rb_write rb \<le> rb_read rb \<and> \<not> rb_closed rb then Inr Blocked
      else if rb_write rb \<le> rb_read rb \<and> rb_closed rb then Inr (Returned ((0, Some EOF), p, rb))
      else
        (let pos = go_rem (rb_read rb) (int BufferSize) in
         if pos < 0 \<or> int (length (rb_data rb)) < pos then Inl SliceBoundsOutOfRange
         else
           (let src = drop (nat pos) (rb_data rb); n = min (length p) (length src)
            in Inr (Returned ((n, None), copy_at 0 src p,
                 rb\<lparr>rb_read := wrap64 (rb_read rb + int n)\<rparr>)))))"

definition TryRead ::
  "RingBuffer \<Rightarrow> byte list \<Rightarrow> ((nat \<times> io_error option) \<times> byte list \<times> RingBuffer) go" where
  "TryRead rb p =
     (if rb_write rb \<le> rb_read rb then
        (if rb_closed rb then Inr ((0, Some EOF), p, rb) else Inr ((0, None), p, rb))
      else
        (let available = wrap64 (rb_write rb - rb_read rb);
             readPos = go_rem (rb_read rb) (int BufferSize);
             spaceBeforeWrap = int BufferSize - readPos;
             n = int (length p);
             n = (if available < n then available else n)
         in if n < 0 \<or> readPos < 0 then Inl SliceBoundsOutOfRange
            else if n \<le> spaceBeforeWrap then
              Inr ((nat n, None), take (nat n) (drop (nat readPos) (rb_data rb)) @ drop (nat n) p,
                rb\<lparr>rb_read := wrap64 (rb_read rb + n)\<rparr>)
            else if int (length (rb_data rb)) < n - spaceBeforeWrap then Inl SliceBoundsOutOfRange
            else
              Inr ((nat n, None),
                take (nat spaceBeforeWrap) (drop (nat readPos) (rb_data rb)) @
                  take (nat (n - spaceBeforeWrap)) (rb_data rb) @ drop (nat n) p,
                rb\<lparr>rb_read := wrap64 (rb_read rb + n)\<rparr>)))"

definition IsHigh :: "RingBuffer \<Rightarrow> bool" where
  "IsHigh rb \<longleftrightarrow> int WaterMarkHigh \<le> Available rb"

definition IsLow :: "RingBuffer \<Rightarrow> bool" where
  "IsLow rb \<longleftrightarrow> Available rb \<le> int WaterMarkLow"

definition RB_Close :: "RingBuffer \<Rightarrow> RingBuffer" where
  "RB_Close rb = rb\<lparr>rb_closed := True\<rparr>"

section \<open>The abstraction: a queue of unread bytes\<close>

definition ring_segment :: "byte list \<Rightarrow> nat \<Rightarrow> nat \<Rightarrow> byte list" where
  "ring_segment d i j = map (\<lambda>k. d ! (k mod BufferSize)) [i..<j]"

definition pending :: "RingBuffer \<Rightarrow> byte list" where
  "pending rb = ring_segment (rb_data rb) (nat (rb_read rb)) (nat (rb_write rb))"

definition rb_inv :: "RingBuffer \<Rightarrow> bool" where
  "rb_inv rb \<longleftrightarrow> length (rb_data rb) = BufferSize \<and> 0 \<le> rb_read rb \<and> rb_read rb \<le> rb_write rb \<and>
     rb_write rb - rb_read rb \<le> int BufferSize \<and> rb_write rb < 2 ^ 63"

definition rb_room :: "RingBuffer \<Rightarrow> byte list \<Rightarrow> bool" where
  \<comment> \<open>the write fits next to the unread bytes, and the \<open>int64\<close> cursor is not about to overflow\<close>
  "rb_room rb p \<longleftrightarrow> \<not> rb_closed rb \<and> length (pending rb) + length p \<le> BufferSize \<and>
     rb_write rb + int (length p) < 2 ^ 63"

text \<open>A bounded byte queue and its users: pushes may be partial, pulls return the oldest bytes.\<close>

datatype queue_op = Push "byte list" | Pull nat

fun run_queue ::
  "('q \<Rightarrow> byte list \<Rightarrow> (nat \<times> 'q) option) \<Rightarrow> ('q \<Rightarrow> nat \<Rightarrow> (byte list \<times> 'q) option) \<Rightarrow>
   ('q \<Rightarrow> byte list \<Rightarrow> bool) \<Rightarrow> 'q \<Rightarrow> queue_op list \<Rightarrow> (byte list \<times> byte list \<times> 'q) option" where
  \<comment> \<open>bytes accepted, bytes delivered and the final queue; \<open>None\<close> if a push finds no room\<close>
  "run_queue push pull room q [] = Some ([], [], q)"
| "run_queue push pull room q (Push p # ops) =
     (if \<not> room q p then None
      else case push q p of
        None \<Rightarrow> None
      | Some (n, q') \<Rightarrow>
          (case run_queue push pull room q' ops of
             None \<Rightarrow> None
           | Some (acc, del, q'') \<Rightarrow> Some (take n p @ acc, del, q'')))"
| "run_queue push pull room q (Pull k # ops) =
     (case pull q k of
        None \<Rightarrow> None
      | Some (out, q') \<Rightarrow>
          (case run_queue push pull room q' ops of
             None \<Rightarrow> None
           | Some (acc, del, q'') \<Rightarrow> Some (acc, out @ del, q'')))"

locale byte_queue =
  fixes push :: "'q \<Rightarrow> byte list \<Rightarrow> (nat \<times> 'q) option"
    and pull :: "'q \<Rightarrow> nat \<Rightarrow> (byte list \<times> 'q) option"
    and room :: "'q \<Rightarrow> byte list \<Rightarrow> bool"
    and contents :: "'q \<Rightarrow> byte list"
    and inv :: "'q \<Rightarrow> bool"
  assumes push_room: "inv q \<Longrightarrow> room q p \<Longrightarrow>
      \<exists>n q'. push q p = Some (n, q') \<and> inv q' \<and> contents q' = contents q @ take n p"
    and pull_front: "inv q \<Longrightarrow>
      \<exists>out q'. pull q k = Some (out, q') \<and> inv q' \<and> contents q = out @ contents q' \<and>
        length out = min k (length (contents q))"
begin

lemma run_conserves:
  "inv q \<Longrightarrow> run_queue push pull room q ops = Some (acc, del, q') \<Longrightarrow>
    inv q' \<and> contents q @ acc = del @ contents q'"
proof (induction ops arbitrary: q acc del)
  case Nil
  then show ?case by simp
next
  case (Cons opn ops)
  show ?case
  proof (cases opn)
    case (Push p)
    with Cons.prems obtain n q1 acc1 where step: "room q p" "push q p = Some (n, q1)"
      and rec: "run_queue push pull room q1 ops = Some (acc1, del, q')" and acc: "acc = take n p @ acc1"
      by (auto split: if_splits option.splits)
    have "inv q1" "contents q1 = contents q @ take n p"
      using push_room [OF Cons.prems(1) step(1)] step(2) by auto
    with Cons.IH [OF _ rec] acc show ?thesis by simp
  next
    case (Pull k)
    with Cons.prems obtain out q1 del1 where step: "pull q k = Some (out, q1)"
      and rec: "run_queue push pull room q1 ops = Some (acc, del1, q')" and del: "del = out @ del1"
      by (auto split: option.splits)
    have "inv q1" "contents q = out @ contents q1"
      using pull_front [OF Cons.prems(1), of k] step by auto
    with Cons.IH [OF _ rec] del show ?thesis by simp
  qed
qed

lemma pull_all:
  assumes "inv q" "length (contents q) \<le> k"
  shows "\<exists>q'. pull q k = Some (contents q, q') \<and> contents q' = []"
proof -
  obtain out q' where q': "pull q k = Some (out, q')" "contents q = out @ contents q'"
    "length out = min k (length (contents q))"
    using pull_front [OF assms(1)] by blast
  from q'(2) have "length (contents q) = length out + length (contents q')"
    by (metis length_append)
  with q'(3) assms(2) have "contents q' = []" by simp
  with q' show ?thesis by simp
qed

end

section \<open>The operations refine the queue\<close>

lemma BufferSize_pos [simp]: "0 < BufferSize" and BufferSize_int [simp]: "0 < int BufferSize"
  by (simp_all add: BufferSize_def)

lemma mod_BufferSize [simp]: "k mod BufferSize < BufferSize" "k mod BufferSize \<le> BufferSize"
  by (simp_all add: less_imp_le)

lemma BufferSize_bound: "int BufferSize < 2 ^ 63"
  by (simp add: BufferSize_def)

lemma rb_inv_new [simp]: "rb_inv NewRingBuffer"
  by (simp add: rb_inv_def NewRingBuffer_def)

lemma pending_new [simp]: "pending NewRingBuffer = []"
  by (simp add: pending_def NewRingBuffer_def ring_segment_def)

lemma length_ring_segment [simp]: "length (ring_segment d i j) = j - i"
  by (simp add: ring_segment_def)

lemma ring_segment_append:
  "i \<le> j \<Longrightarrow> j \<le> k \<Longrightarrow> ring_segment d i k = ring_segment d i j @ ring_segment d j k"
  using upt_add_eq_append [of i j "k - j"] by (simp add: ring_segment_def)

lemma ring_segment_contiguous:
  assumes "length d = BufferSize" "n \<le> BufferSize - i mod BufferSize"
  shows "take n (drop (i mod BufferSize) d) = ring_segment d i (i + n)"
proof (rule nth_equalityI)
  show "length (take n (drop (i mod BufferSize) d)) = length (ring_segment d i (i + n))"
    using assms by simp
next
  fix k assume "k < length (take n (drop (i mod BufferSize) d))"
  then have k: "k < n" "i mod BufferSize + k < BufferSize" using assms by auto
  then have "(i + k) mod BufferSize = i mod BufferSize + k"
    by (metis mod_add_left_eq mod_less)
  with k assms show "take n (drop (i mod BufferSize) d) ! k = ring_segment d i (i + n) ! k"
    by (simp add: ring_segment_def)
qed

lemma ring_segment_wrapped:
  assumes "length d = BufferSize" "BufferSize - i mod BufferSize \<le> n" "n \<le> BufferSize"
  shows "drop (i mod BufferSize) d @ take (n - (BufferSize - i mod BufferSize)) d =
    ring_segment d i (i + n)"
proof -
  define s where "s = BufferSize - i mod BufferSize"
  have lt: "i mod BufferSize < BufferSize" by simp
  then have "(i mod BufferSize + s) mod BufferSize = 0" by (simp add: s_def)
  then have mod0: "(i + s) mod BufferSize = 0" by (simp add: mod_add_left_eq)
  have sn: "s \<le> n" using assms(2) by (simp only: s_def)
  then have ns: "n - s \<le> BufferSize" "i + s + (n - s) = i + n" using assms(3) by auto
  have 2: "take (n - s) d = ring_segment d (i + s) (i + n)"
    using ring_segment_contiguous [of d "n - s" "i + s"] assms(1) mod0 ns by simp
  have "drop (i mod BufferSize) d = take s (drop (i mod BufferSize) d)"
    using assms(1) by (simp add: s_def)
  also have "\<dots> = ring_segment d i (i + s)"
    using assms(1) by (intro ring_segment_contiguous) (auto simp: s_def)
  finally have 1: "drop (i mod BufferSize) d = ring_segment d i (i + s)" .
  have "ring_segment d i (i + s) @ ring_segment d (i + s) (i + n) = ring_segment d i (i + n)"
    using sn by (intro ring_segment_append [symmetric]) auto
  with 1 2 show ?thesis by (simp add: s_def)
qed

lemma go_rem_cursor: "0 \<le> x \<Longrightarrow> go_rem x (int BufferSize) = int (nat x mod BufferSize)"
  by (simp add: go_rem_nonneg zmod_int)

lemma copy_at_nth:
  assumes "off \<le> length d" "k < length d"
  shows "copy_at off p d ! k =
    (if off \<le> k \<and> k < off + length p then p ! (k - off) else d ! k)"
  using assms by (auto simp: copy_at_def put_at_def nth_append min_def)


lemma write_start:
  "rb_inv rb \<Longrightarrow> rb_copy_in rb p =
    (let w = nat (rb_write rb); n = min (BufferSize - w mod BufferSize) (length p)
     in Inr (n, rb\<lparr>rb_data := copy_at (w mod BufferSize) p (rb_data rb),
                   rb_write := wrap64 (rb_write rb + int n)\<rparr>))"
  by (simp add: rb_copy_in_def rb_inv_def go_rem_cursor Let_def not_less)

lemma written_region:
  \<comment> \<open>a position between \<open>r\<close> and \<open>w\<close> does not fall into the next \<open>n\<close> cells when these fit\<close>
  assumes "r \<le> a" "a < w" "w - r + n \<le> BufferSize"
    "n = min (BufferSize - w mod BufferSize) len"
  shows "\<not> (w mod BufferSize \<le> a mod BufferSize \<and> a mod BufferSize < w mod BufferSize + len)"
proof
  assume region: "w mod BufferSize \<le> a mod BufferSize \<and> a mod BufferSize < w mod BufferSize + len"
  define j where "j = a mod BufferSize - w mod BufferSize"
  have idx: "a mod BufferSize = w mod BufferSize + j" using region by (simp add: j_def)
  have "j < len" using region idx by simp
  moreover have "w mod BufferSize + j < BufferSize" using idx mod_BufferSize(1) [of a] by simp
  ultimately have j: "j < n" using assms(4) by simp
  have "(w + j) mod BufferSize = a mod BufferSize"
    using idx mod_BufferSize(1) [of a] by (metis mod_add_left_eq mod_less)
  moreover have "a mod BufferSize \<noteq> (w + j) mod BufferSize"
    using assms j by (intro mod_window) auto
  ultimately show False by simp
qed

lemma ring_write_keeps:
  assumes "length d = BufferSize" "r \<le> w" "w - r + n \<le> BufferSize"
    "n = min (BufferSize - w mod BufferSize) (length p)"
  shows "ring_segment (copy_at (w mod BufferSize) p d) r w = ring_segment d r w"
  using assms written_region [of r _ w n "length p"]
  by (auto simp: ring_segment_def copy_at_nth)

lemma ring_write_new:
  assumes "length d = BufferSize" "n = min (BufferSize - w mod BufferSize) (length p)"
  shows "ring_segment (copy_at (w mod BufferSize) p d) w (w + n) = take n p"
proof -
  have "n \<le> BufferSize - w mod BufferSize" using assms(2) by simp
  then have "ring_segment (copy_at (w mod BufferSize) p d) w (w + n) =
      take n (drop (w mod BufferSize) (copy_at (w mod BufferSize) p d))"
    using assms(1) by (intro ring_segment_contiguous [symmetric]) simp_all
  also have "\<dots> = take n p"
    using assms by (simp add: copy_at_def put_at_def)
  finally show ?thesis .
qed

lemma RB_Write_refines:
  assumes inv: "rb_inv rb" and room: "rb_room rb p"
  shows "\<exists>rb' n. RB_Write rb p = Inr ((n, None), rb') \<and> rb_inv rb' \<and> \<not> rb_closed rb' \<and>
    n = min (BufferSize - nat (rb_write rb) mod BufferSize) (length p) \<and>
    pending rb' = pending rb @ take n p \<and> rb_write rb' = rb_write rb + int n"
proof -
  define w where "w = nat (rb_write rb)"
  define r where "r = nat (rb_read rb)"
  define n where "n = min (BufferSize - w mod BufferSize) (length p)"
  define rb' where "rb' = rb\<lparr>rb_data := copy_at (w mod BufferSize) p (rb_data rb),
    rb_write := rb_write rb + int n\<rparr>"
  have cur: "rb_write rb = int w" "rb_read rb = int r" "r \<le> w" "w - r \<le> BufferSize"
    "length (rb_data rb) = BufferSize"
    using inv by (auto simp: rb_inv_def w_def r_def)
  have pend: "length (pending rb) = w - r" by (simp add: pending_def w_def r_def)
  have fits: "w - r + length p \<le> BufferSize" "int w + int (length p) < 2 ^ 63" "\<not> rb_closed rb"
    using room pend cur by (auto simp: rb_room_def)
  have n: "n \<le> length p" "w - r + n \<le> BufferSize" using fits by (auto simp: n_def)
  have "wrap64 (int w + int n) = int w + int n"
    using fits(2) n by (intro wrap64_id) linarith+
  moreover have "wrap64 (int w - int r) = int w - int r"
    using cur(3,4) BufferSize_bound BufferSize_int by (intro wrap64_id) linarith+
  moreover have "rb_copy_in rb p = Inr (n, rb')"
    using write_start [OF inv, of p] calculation(1) cur(1) by (simp add: rb'_def n_def Let_def)
  ultimately have step: "RB_Write rb p = Inr ((n, None), rb')"
    using fits cur by (simp add: RB_Write_def Let_def del: of_nat_add)
  have "ring_segment (rb_data rb') r (w + n) =
      ring_segment (rb_data rb') r w @ ring_segment (rb_data rb') w (w + n)"
    using cur by (intro ring_segment_append) auto
  also have "\<dots> = ring_segment (rb_data rb) r w @ take n p"
    using ring_write_keeps [of "rb_data rb" r w n p] ring_write_new [of "rb_data rb" n w p] cur n
    by (simp add: rb'_def n_def)
  finally have "pending rb' = pending rb @ take n p"
    using cur(1,2) by (simp add: pending_def rb'_def nat_int_add)
  moreover have "rb_inv rb'"
    using cur n fits by (auto simp: rb_inv_def rb'_def)
  ultimately show ?thesis
    using step fits(3) cur(1) by (auto simp: rb'_def n_def simp flip: w_def)
qed

lemma TryRead_nonempty:
  assumes "rb_read rb < rb_write rb" and avail: "wrap64 (rb_write rb - rb_read rb) = int a"
    and pos: "go_rem (rb_read rb) (int BufferSize) = int q" and space: "int BufferSize - int q = int s"
    and n: "n = min (length p) a"
  shows "TryRead rb p =
    (if n \<le> s then Inr ((n, None), take n (drop q (rb_data rb)) @ drop n p,
        rb\<lparr>rb_read := wrap64 (rb_read rb + int n)\<rparr>)
     else if length (rb_data rb) < n - s then Inl SliceBoundsOutOfRange
     else Inr ((n, None), take s (drop q (rb_data rb)) @ take (n - s) (rb_data rb) @ drop n p,
        rb\<lparr>rb_read := wrap64 (rb_read rb + int n)\<rparr>))"
proof -
  have cnt: "(if int a < int (length p) then int a else int (length p)) = int n"
    using n by simp
  have diff: "nat (int n - int s) = n - s" by arith
  show ?thesis
    unfolding TryRead_def Let_def avail pos space cnt diff using assms(1) by auto
qed

lemma TryRead_refines:
  fixes p :: "byte list"
  assumes inv: "rb_inv rb"
  defines "n \<equiv> min (length p) (length (pending rb))"
  shows "\<exists>e rb'. TryRead rb p = Inr ((n, e), take n (pending rb) @ drop n p, rb') \<and> rb_inv rb' \<and>
    rb_closed rb' = rb_closed rb \<and> pending rb' = drop n (pending rb) \<and>
    e = (if pending rb = [] \<and> rb_closed rb then Some EOF else None)"
proof (cases "rb_write rb \<le> rb_read rb")
  case True
  then have "pending rb = []" by (simp add: pending_def ring_segment_def)
  with True inv show ?thesis by (simp add: TryRead_def n_def)
next
  case False
  define w where "w = nat (rb_write rb)"
  define r where "r = nat (rb_read rb)"
  define space where "space = BufferSize - r mod BufferSize"
  define rb' where "rb' = rb\<lparr>rb_read := int (r + n)\<rparr>"
  have cur: "rb_write rb = int w" "rb_read rb = int r" "w - r \<le> BufferSize"
    "length (rb_data rb) = BufferSize" "int w < 2 ^ 63"
    using inv by (auto simp: rb_inv_def w_def r_def)
  have rw: "r < w" using False cur(1,2) by simp
  have pend: "pending rb = ring_segment (rb_data rb) r w" by (simp add: pending_def w_def r_def)
  have n: "n = min (length p) (w - r)" by (simp add: n_def pend)
  have front: "take n (pending rb) = ring_segment (rb_data rb) r (r + n)"
    and rear: "drop n (pending rb) = ring_segment (rb_data rb) (r + n) w"
    using ring_segment_append [of r "r + n" w "rb_data rb"] rw n by (auto simp: pend)
  have pos: "go_rem (int r) (int BufferSize) = int (r mod BufferSize)"
    by (simp add: go_rem_cursor)
  have space: "int BufferSize - int (r mod BufferSize) = int space"
    by (simp add: space_def of_nat_diff)
  have avail: "wrap64 (int w - int r) = int (w - r)"
    using rw cur(5) wrap64_id [of "int w - int r"] by (simp add: of_nat_diff)
  have next_r: "wrap64 (int r + int n) = int (r + n)"
    using rw n cur(5) wrap64_id [of "int r + int n"] by simp
  have "int r < int w" using rw by simp
  note read = TryRead_nonempty [of rb "w - r" "r mod BufferSize" space n p, unfolded cur(1,2),
      OF this avail pos space n]
  have "TryRead rb p = Inr ((n, None), take n (pending rb) @ drop n p, rb')"
  proof (cases "n \<le> space")
    case True
    then have "take n (drop (r mod BufferSize) (rb_data rb)) = ring_segment (rb_data rb) r (r + n)"
      using cur(4) by (intro ring_segment_contiguous) (simp_all add: space_def)
    with True show ?thesis
      using read by (simp only: if_True rb'_def front next_r [symmetric] cur(2))
  next
    case False2: False
    then have "space \<le> n" "n \<le> BufferSize" using n cur(3) by auto
    then have "drop (r mod BufferSize) (rb_data rb) @ take (n - space) (rb_data rb) =
        ring_segment (rb_data rb) r (r + n)"
      using ring_segment_wrapped [of "rb_data rb" r n] cur(4) by (simp only: space_def)
    moreover have "take space (drop (r mod BufferSize) (rb_data rb)) = drop (r mod BufferSize) (rb_data rb)"
      using cur(4) by (simp add: space_def)
    moreover have "\<not> length (rb_data rb) < n - space" using n cur(3,4) by simp
    ultimately show ?thesis
      using read False2
      by (simp only: if_False rb'_def front next_r [symmetric] cur(2) flip: append_assoc)
  qed
  moreover have "rb_inv rb'" "pending rb' = drop n (pending rb)" "rb_closed rb' = rb_closed rb"
    using inv cur n rw rear by (auto simp: rb_inv_def rb'_def pending_def nat_int_add)
  moreover have "pending rb \<noteq> []"
    using rw by (simp add: pend ring_segment_def)
  ultimately show ?thesis by simp
qed


section \<open>Interpretation and properties\<close>

definition rb_push :: "RingBuffer \<Rightarrow> byte list \<Rightarrow> (nat \<times> RingBuffer) option" where
  "rb_push rb p = (case RB_Write rb p of Inr ((n, _), rb') \<Rightarrow> Some (n, rb') | Inl _ \<Rightarrow> None)"

definition rb_pull :: "RingBuffer \<Rightarrow> nat \<Rightarrow> (byte list \<times> RingBuffer) option" where
  \<comment> \<open>\<open>TryRead\<close> into a fresh slice of \<open>k\<close> bytes, keeping the \<open>n\<close> bytes read\<close>
  "rb_pull rb k =
     (case TryRead rb (replicate k 0) of
        Inr ((n, _), p, rb') \<Rightarrow> Some (take n p, rb')
      | Inl _ \<Rightarrow> None)"

lemma rb_push_queue:
  "rb_inv rb \<Longrightarrow> rb_room rb p \<Longrightarrow>
    \<exists>n rb'. rb_push rb p = Some (n, rb') \<and> rb_inv rb' \<and> pending rb' = pending rb @ take n p"
  using RB_Write_refines [of rb p] by (auto simp: rb_push_def)

lemma rb_pull_queue:
  "rb_inv rb \<Longrightarrow> \<exists>out rb'. rb_pull rb k = Some (out, rb') \<and> rb_inv rb' \<and>
    pending rb = out @ pending rb' \<and> length out = min k (length (pending rb))"
  using TryRead_refines [of rb "replicate k 0"] by (auto simp: rb_pull_def)

interpretation ring: byte_queue rb_push rb_pull rb_room pending rb_inv
  by unfold_locales (simp_all add: rb_push_queue rb_pull_queue)



lemma rb_room_new: "length p \<le> BufferSize \<Longrightarrow> rb_room NewRingBuffer p"
  by (simp add: rb_room_def) (simp add: NewRingBuffer_def BufferSize_def)


text \<open>A write that fits is accepted up to the end of the array only: it returns the short count
  \<open>min (len p) (BufferSize - write % BufferSize)\<close> with a nil error, and a second write of the rest
  completes it.\<close>

theorem ring_write_short:
  assumes "rb_inv rb" "rb_room rb p"
  defines "n \<equiv> min (BufferSize - nat (rb_write rb) mod BufferSize) (length p)"
  shows "\<exists>rb' rb''. RB_Write rb p = Inr ((n, None), rb') \<and>
    RB_Write rb' (drop n p) = Inr ((length p - n, None), rb'') \<and>
    pending rb'' = pending rb @ p \<and> rb_inv rb''"
proof -
  define w where "w = nat (rb_write rb)"
  have w: "rb_write rb = int w" using assms(1) by (simp add: rb_inv_def w_def)
  obtain rb' where 1: "RB_Write rb p = Inr ((n, None), rb')" "rb_inv rb'" "\<not> rb_closed rb'"
    "pending rb' = pending rb @ take n p" "rb_write rb' = int (w + n)"
    using RB_Write_refines [OF assms(1,2)] w unfolding n_def by auto
  have len: "length p \<le> BufferSize" "n \<le> length p" using assms(2) by (auto simp: rb_room_def n_def)
  have "rb_room rb' (drop n p)"
    using assms(2) 1 w len by (auto simp: rb_room_def)
  moreover have nw: "nat (rb_write rb') = w + n" using 1(5) by simp
  ultimately obtain rb'' m where 2:
    "RB_Write rb' (drop n p) = Inr ((m, None), rb'')" "rb_inv rb''"
    "m = min (BufferSize - (w + n) mod BufferSize) (length p - n)"
    "pending rb'' = pending rb' @ take m (drop n p)"
    using RB_Write_refines [OF 1(2), of "drop n p", unfolded nw length_drop] by blast
  have "m = length p - n"
  proof (cases "n = length p")
    case False
    then have "n = BufferSize - w mod BufferSize" using w by (simp add: n_def)
    then have "(w + n) mod BufferSize = 0"
      using mod_BufferSize(2) [of w] by (metis le_add_diff_inverse mod_add_left_eq mod_self)
    with 2(3) len show ?thesis by simp
  qed (simp add: 2(3))
  with 1 2 show ?thesis by auto
qed

theorem ring_write_short_witness:
  "\<exists>rb' rb''. RB_Write NewRingBuffer [1, 2] = Inr ((2, None), rb') \<and>
    RB_Write rb' [] = Inr ((0, None), rb'') \<and> pending rb'' = [1, 2] \<and> rb_inv rb''"
proof -
  have room: "rb_room NewRingBuffer [1, 2]" by (simp add: rb_room_new BufferSize_def)
  have "min (BufferSize - nat (rb_write NewRingBuffer) mod BufferSize) (length [1, 2 :: byte]) = 2"
    by (simp add: NewRingBuffer_def BufferSize_def)
  with ring_write_short [OF rb_inv_new room] show ?thesis by (simp add: numeral_2_eq_2)
qed

text \<open>C36: when the unread bytes fill the array, \<open>Write\<close> reports \<open>ErrBufferFull\<close> but copies all the same:
  it returns a positive count, the first unread byte is replaced by the first byte written, and
  more bytes count as available than the array holds.\<close>

theorem ring_full_write_overwrites:
  assumes "rb_inv rb" "\<not> rb_closed rb" "rb_write rb - rb_read rb = int BufferSize" "p \<noteq> []"
    "rb_write rb + int (length p) < 2 ^ 63"
  shows "\<exists>n rb'. RB_Write rb p = Inr ((n, Some ErrBufferFull), rb') \<and> 0 < n \<and>
    Available rb' = int (BufferSize + n) \<and> hd (pending rb') = hd p \<and> rb_read rb' = rb_read rb"
proof -
  define r where "r = nat (rb_read rb)"
  have cur: "rb_read rb = int r" "rb_write rb = int (r + BufferSize)" "length (rb_data rb) = BufferSize"
    using assms(1,3) by (auto simp: rb_inv_def r_def)
  define n where "n = min (BufferSize - r mod BufferSize) (length p)"
  define rb' where "rb' = rb\<lparr>rb_data := copy_at (r mod BufferSize) p (rb_data rb),
    rb_write := int (r + BufferSize + n)\<rparr>"
  have n: "0 < n" "n \<le> length p" "n \<le> BufferSize"
    using assms(4) by (auto simp: n_def)
  have "wrap64 (int (r + BufferSize) + int n) = int (r + BufferSize + n)"
    using assms(5) n cur by (subst wrap64_id) auto
  moreover have "nat (rb_write rb) mod BufferSize = r mod BufferSize"
    by (simp add: cur(2) del: of_nat_add)
  ultimately have copied: "rb_copy_in rb p = Inr (n, rb')"
    using write_start [OF assms(1), of p] by (simp add: Let_def rb'_def n_def cur(2) del: of_nat_add)
  have full: "wrap64 (int (r + BufferSize) - int r) = int BufferSize"
    using BufferSize_bound by (subst wrap64_id) auto
  have "int BufferSize - int BufferSize < int (length p)" using assms(4) by simp
  with copied full have step: "RB_Write rb p = Inr ((n, Some ErrBufferFull), rb')"
    using assms(2) by (simp add: RB_Write_def Let_def cur(1,2) del: of_nat_add)
  have "Available rb' = int (BufferSize + n)"
    using n BufferSize_bound cur(1) by (simp add: Available_def rb'_def) (simp add: wrap64_id BufferSize_def)
  moreover have "hd (pending rb') = hd p"
    using n cur assms(4)
    by (simp add: pending_def rb'_def ring_segment_def upt_rec copy_at_nth hd_conv_nth)
  ultimately show ?thesis
    using step n(1) by (auto simp: rb'_def)
qed

theorem ring_full_write_overwrites_witness:
  "\<exists>n rb'. RB_Write (NewRingBuffer\<lparr>rb_write := int BufferSize\<rparr>) [7] =
      Inr ((n, Some ErrBufferFull), rb') \<and> 0 < n \<and> Available rb' = int (BufferSize + n) \<and>
    hd (pending rb') = 7 \<and> rb_read rb' = 0"
proof -
  have "rb_inv (NewRingBuffer\<lparr>rb_write := int BufferSize\<rparr>)"
    using BufferSize_bound by (simp add: rb_inv_def NewRingBuffer_def)
  from ring_full_write_overwrites [OF this, of "[7]"] show ?thesis
    by (simp add: NewRingBuffer_def) (simp add: BufferSize_def)
qed

text \<open>The blocking \<open>Read\<close> does not look at the write cursor: with any unread byte it returns
  \<open>min (len p) (BufferSize - read % BufferSize)\<close> bytes, and the read cursor passes the write cursor
  whenever that exceeds the number of unread bytes (\<open>Available\<close> becomes their difference).\<close>

theorem ring_read_ignores_writer:
  assumes "rb_inv rb" "pending rb \<noteq> []" "rb_read rb + int (length p) < 2 ^ 63"
  defines "n \<equiv> min (length p) (BufferSize - nat (rb_read rb) mod BufferSize)"
  shows "\<exists>p' rb'. RB_Read rb p = Inr (Returned ((n, None), p', rb')) \<and>
    Available rb' = int (length (pending rb)) - int n \<and> rb_write rb' = rb_write rb"
proof -
  define r where "r = nat (rb_read rb)"
  define w where "w = nat (rb_write rb)"
  have cur: "rb_read rb = int r" "rb_write rb = int w" "length (rb_data rb) = BufferSize"
    "int w < 2 ^ 63" "w - r \<le> BufferSize"
    using assms(1) by (auto simp: rb_inv_def r_def w_def)
  have rw: "r < w" and len: "length (pending rb) = w - r"
    using assms(2) by (auto simp: pending_def ring_segment_def r_def w_def)
  have n: "n = min (length p) (BufferSize - r mod BufferSize)"
    by (simp add: n_def r_def)
  have pos: "go_rem (int r) (int BufferSize) = int (r mod BufferSize)"
    by (simp add: go_rem_cursor)
  have next_r: "wrap64 (int r + int n) = int r + int n"
    using assms(3) cur(1) n by (intro wrap64_id) auto
  have read: "RB_Read rb p = Inr (Returned ((n, None),
      copy_at 0 (drop (r mod BufferSize) (rb_data rb)) p, rb\<lparr>rb_read := int r + int n\<rparr>))"
    using rw by (simp add: RB_Read_def Let_def cur(1-3) pos not_less next_r [unfolded n] n)
  have "Available (rb\<lparr>rb_read := int r + int n\<rparr>) = int (w - r) - int n"
    using rw n cur(4) BufferSize_bound
    by (simp add: Available_def cur(2)) (subst wrap64_id; simp add: BufferSize_def)
  with read len cur(2) show ?thesis by simp
qed

theorem ring_read_ignores_writer_witness:
  "\<exists>p' rb'. RB_Read (NewRingBuffer\<lparr>rb_write := 1\<rparr>) [0, 0, 0] = Inr (Returned ((3, None), p', rb')) \<and>
    Available rb' = -2 \<and> rb_write rb' = 1"
proof -
  let ?rb = "NewRingBuffer\<lparr>rb_write := 1\<rparr>"
  have inv: "rb_inv ?rb" by (simp add: rb_inv_def NewRingBuffer_def BufferSize_def)
  have pend: "length (pending ?rb) = 1" by (simp add: pending_def NewRingBuffer_def)
  then have "pending ?rb \<noteq> []" by auto
  from ring_read_ignores_writer [OF inv this, of "[0, 0, 0]"] pend show ?thesis
    by (simp add: NewRingBuffer_def BufferSize_def numeral_3_eq_3)
qed

end
