(* ===== verification/Session.thy ===== *)
theory Session
  imports GoRuntime
begin

text \<open>
  Package \<open>gateway/internal/session\<close>: the session record and its accessors (\<open>session.go\<close>), the
  state names (\<open>state.go\<close>), the registry with its expiry sweep (\<open>manager.go\<close>) and reconnection
  (\<open>reconnect.go\<close>). Each call of \<open>time.Now\<close> or \<open>time.Since\<close> is an argument with its reading. A
  session is shared by pointer between the registry and its users; the registry holds it under its
  own id, so an operation through the pointer is an update of that entry.
\<close>

section \<open>Sessions\<close>

datatype State = StateActive | StateDetached | StateExpired | StateClosed | StateOther int

fun State_String :: "State \<Rightarrow> string" where
  "State_String StateActive = ''active''"
| "State_String StateDetached = ''detached''"
| "State_String StateExpired = ''expired''"
| "State_String StateClosed = ''closed''"
| "State_String (StateOther _) = ''unknown''"

datatype PromptState = PromptShell | PromptTUI | PromptUnknown

record Session =
  S_SessionID :: u32
  S_UserID :: string
  S_HostID :: string
  S_SSHClient :: "nat option"    \<comment> \<open>pointer; \<open>None\<close> is nil\<close>
  S_ShellStream :: "nat option"  \<comment> \<open>interface value; \<open>None\<close> is nil\<close>
  S_Cols :: int
  S_Rows :: int
  S_State :: State
  S_LastActiveAt :: time
  S_WriteBufferSize :: int
  S_IsSlow :: bool
  S_PromptState :: PromptState

definition NewSession :: "time \<Rightarrow> u32 \<Rightarrow> string \<Rightarrow> string \<Rightarrow> Session" where
  "NewSession now sid userID hostID =
     \<lparr>S_SessionID = sid, S_UserID = userID, S_HostID = hostID, S_SSHClient = None,
      S_ShellStream = None, S_Cols = 80, S_Rows = 24, S_State = StateActive, S_LastActiveAt = now,
      S_WriteBufferSize = 0, S_IsSlow = False, S_PromptState = PromptUnknown\<rparr>"

definition SetState :: "State \<Rightarrow> Session \<Rightarrow> Session" where
  "SetState st s = s\<lparr>S_State := st\<rparr>"

definition GetState :: "Session \<Rightarrow> State" where
  "GetState s = S_State s"

definition SetPromptState :: "PromptState \<Rightarrow> Session \<Rightarrow> Session" where
  "SetPromptState ps s = s\<lparr>S_PromptState := ps\<rparr>"

definition GetPromptState :: "Session \<Rightarrow> PromptState" where
  "GetPromptState s = S_PromptState s"

definition SetSlow :: "bool \<Rightarrow> Session \<Rightarrow> Session" where
  "SetSlow slow s = s\<lparr>S_IsSlow := slow\<rparr>"

definition GetSlow :: "Session \<Rightarrow> bool" where
  "GetSlow s = S_IsSlow s"

lemmas session_accessors = SetState_def GetState_def SetPromptState_def GetPromptState_def
  SetSlow_def GetSlow_def

section \<open>Detaching and reattaching\<close>

definition DefaultReconnectTTL :: duration where "DefaultReconnectTTL = 10 * Minute"

record ReconnectInfo =
  RI_SessionID :: u32
  RI_UserID :: string
  RI_HostID :: string
  RI_Cols :: int
  RI_Rows :: int
  RI_Offset :: int

datatype session_error =
    NotInDetachedState u32
  | SessionExpired u32
  | SessionNotFound u32

definition Detach :: "time \<Rightarrow> Session \<Rightarrow> Session" where
  "Detach now s = s\<lparr>S_State := StateDetached, S_LastActiveAt := now\<rparr>"

definition CanReconnect :: "time \<Rightarrow> Session \<Rightarrow> bool" where
  "CanReconnect now s =
     (if S_State s \<noteq> StateDetached then False
      else time_sub now (S_LastActiveAt s) \<le> DefaultReconnectTTL)"

definition IsExpired :: "time \<Rightarrow> Session \<Rightarrow> bool" where
  "IsExpired now s =
     (if S_State s \<noteq> StateDetached then False
      else DefaultReconnectTTL < time_sub now (S_LastActiveAt s))"

definition GetReconnectInfo :: "Session \<Rightarrow> ReconnectInfo" where
  "GetReconnectInfo s =
     \<lparr>RI_SessionID = S_SessionID s, RI_UserID = S_UserID s, RI_HostID = S_HostID s,
      RI_Cols = S_Cols s, RI_Rows = S_Rows s, RI_Offset = 0\<rparr>"

definition Attach :: "time \<Rightarrow> time \<Rightarrow> Session \<Rightarrow> session_error option \<times> Session" where
  \<comment> \<open>\<open>since\<close> is the clock at \<open>time.Since\<close>, \<open>now\<close> at \<open>time.Now\<close>\<close>
  "Attach since now s =
     (if S_State s \<noteq> StateDetached then (Some (NotInDetachedState (S_SessionID s)), s)
      else if DefaultReconnectTTL < time_sub since (S_LastActiveAt s)
      then (Some (SessionExpired (S_SessionID s)), s\<lparr>S_State := StateExpired\<rparr>)
      else (None, s\<lparr>S_State := StateActive, S_LastActiveAt := now\<rparr>))"

section \<open>The manager\<close>

definition DefaultTTL :: duration where "DefaultTTL = 10 * Minute"
definition CleanupInterval :: duration where "CleanupInterval = 1 * Minute"

record Manager =
  M_sessions :: "(u32, Session) sync_map"
  M_ttl :: duration
  M_stopCleanup :: "unit chan"

definition NewManager :: Manager where
  "NewManager = \<lparr>M_sessions = [], M_ttl = DefaultTTL, M_stopCleanup = make_chan 0\<rparr>"

definition cleanup_visit :: "(u32 \<Rightarrow> time) \<Rightarrow> u32 \<Rightarrow> Session \<Rightarrow> Manager \<Rightarrow> bool \<times> Manager" where
  "cleanup_visit now k s m =
     (if GetState s = StateDetached \<and> M_ttl m < time_sub (now k) (S_LastActiveAt s)
      then (True, m\<lparr>M_sessions := sm_delete k (M_sessions m)\<rparr>)
      else (True, m))"

definition cleanup :: "(u32 \<Rightarrow> time) \<Rightarrow> Manager \<Rightarrow> Manager" where
  \<comment> \<open>\<open>now k\<close> is the clock when entry \<open>k\<close> is visited\<close>
  "cleanup now m = sm_range (cleanup_visit now) (M_sessions m) m"

definition Manager_Register :: "Session \<Rightarrow> Manager \<Rightarrow> Manager" where
  "Manager_Register s m = m\<lparr>M_sessions := sm_store (S_SessionID s) s (M_sessions m)\<rparr>"

definition Manager_Unregister :: "u32 \<Rightarrow> Manager \<Rightarrow> Manager" where
  "Manager_Unregister sid m = m\<lparr>M_sessions := sm_delete sid (M_sessions m)\<rparr>"

definition Manager_Get :: "Manager \<Rightarrow> u32 \<Rightarrow> Session option" where
  "Manager_Get m sid = sm_load (M_sessions m) sid"

definition Manager_Range :: "(Session \<Rightarrow> 's \<Rightarrow> bool \<times> 's) \<Rightarrow> Manager \<Rightarrow> 's \<Rightarrow> 's" where
  "Manager_Range f m = sm_range (\<lambda>k v. f v) (M_sessions m)"

definition Manager_Stop :: "Manager \<Rightarrow> Manager go" where
  "Manager_Stop m =
     (case chan_close (M_stopCleanup m) of
        Inl e \<Rightarrow> Inl e
      | Inr c \<Rightarrow> Inr (m\<lparr>M_stopCleanup := c\<rparr>))"

datatype manager_event = CleanupTick "u32 \<Rightarrow> time" | StopCleanup

fun cleanupLoop :: "manager_event list \<Rightarrow> Manager \<Rightarrow> Manager" where
  \<comment> \<open>the loop of \<open>cleanupLoop\<close> over the events its \<open>select\<close> receives\<close>
  "cleanupLoop [] m = m"
| "cleanupLoop (CleanupTick now # es) m = cleanupLoop es (cleanup now m)"
| "cleanupLoop (StopCleanup # es) m = m"

definition update_session :: "u32 \<Rightarrow> Session \<Rightarrow> Manager \<Rightarrow> Manager" where
  \<comment> \<open>the effect, on the registry, of an operation through the shared session pointer\<close>
  "update_session sid s m = m\<lparr>M_sessions := sm_store sid s (M_sessions m)\<rparr>"

definition HandleReconnect ::
  "time \<Rightarrow> time \<Rightarrow> u32 \<Rightarrow> Manager \<Rightarrow> (session_error + Session) \<times> Manager" where
  "HandleReconnect since now sessionID m =
     (case Manager_Get m sessionID of
        None \<Rightarrow> (Inl (SessionNotFound sessionID), m)
      | Some s \<Rightarrow>
          (case Attach since now s of
             (Some e, s') \<Rightarrow> (Inl e, update_session sessionID s' m)
           | (None, s') \<Rightarrow> (Inr s', update_session sessionID s' m)))"

definition manager_wf :: "Manager \<Rightarrow> bool" where
  \<comment> \<open>one entry per id, each session under its own id\<close>
  "manager_wf m \<longleftrightarrow> sm_wf (M_sessions m) \<and> list_all (\<lambda>(k, s). S_SessionID s = k) (M_sessions m)"

section \<open>The registry contract\<close>

interpretation sessions: registry S_SessionID "\<lambda>s. s" Manager_Register Manager_Unregister Manager_Get
  by unfold_locales
    (auto simp: Manager_Get_def Manager_Register_def Manager_Unregister_def fun_eq_iff)

lemma Manager_Get_update [simp]:
  "Manager_Get (update_session sid s m) sid' = (if sid' = sid then Some s else Manager_Get m sid')"
  by (simp add: Manager_Get_def update_session_def)

lemma update_session_same: "Manager_Get m sid = Some s \<Longrightarrow>
    Manager_Get (update_session sid s m) = Manager_Get m"
  by (auto simp: fun_eq_iff)

lemma list_all_store:
  "list_all P m \<Longrightarrow> P (k, v) \<Longrightarrow> list_all P (AList.update k v m)"
  by (induction m) auto

lemma list_all_delete: "list_all P m \<Longrightarrow> list_all P (AList.delete k m)"
  by (auto simp: list_all_iff AList.delete_eq)

lemma manager_wf_new: "manager_wf NewManager"
  by (simp add: manager_wf_def NewManager_def)

lemma manager_wf_register: "manager_wf m \<Longrightarrow> manager_wf (Manager_Register s m)"
  by (simp add: manager_wf_def Manager_Register_def list_all_store sm_store_def [symmetric])
    (simp add: sm_store_def list_all_store)

lemma manager_wf_unregister: "manager_wf m \<Longrightarrow> manager_wf (Manager_Unregister sid m)"
  by (simp add: manager_wf_def Manager_Unregister_def) (simp add: sm_delete_def list_all_delete)

lemma manager_wf_Get: "manager_wf m \<Longrightarrow> Manager_Get m sid = Some s \<Longrightarrow> S_SessionID s = sid"
  by (auto simp: manager_wf_def Manager_Get_def sm_load_def list_all_iff dest: map_of_SomeD)

section \<open>Clock arithmetic of the TTL\<close>

lemma TTL_range: "minDuration \<le> DefaultReconnectTTL" "DefaultReconnectTTL < maxDuration"
  by (simp_all add: minDuration_def maxDuration_def DefaultReconnectTTL_def Minute_def Second_def)

lemma DefaultTTL_eq: "DefaultTTL = DefaultReconnectTTL"
  by (simp add: DefaultTTL_def DefaultReconnectTTL_def)

lemma CanReconnect_iff:
  "CanReconnect now s \<longleftrightarrow> S_State s = StateDetached \<and> now - S_LastActiveAt s \<le> DefaultReconnectTTL"
  by (simp add: CanReconnect_def time_sub_le TTL_range)

lemma IsExpired_iff:
  "IsExpired now s \<longleftrightarrow> S_State s = StateDetached \<and> DefaultReconnectTTL < now - S_LastActiveAt s"
  by (simp add: IsExpired_def time_sub_less TTL_range)

lemma Attach_cases:
  "Attach since now s =
    (if CanReconnect since s then (None, s\<lparr>S_State := StateActive, S_LastActiveAt := now\<rparr>)
     else if IsExpired since s then (Some (SessionExpired (S_SessionID s)), s\<lparr>S_State := StateExpired\<rparr>)
     else (Some (NotInDetachedState (S_SessionID s)), s))"
  by (auto simp: Attach_def CanReconnect_def IsExpired_def)

section \<open>The sweep\<close>

lemma fold_cleanup:
  "distinct (map fst es) \<Longrightarrow>
    Manager_Get (fold (\<lambda>(k, s) m. snd (cleanup_visit now k s m)) es m) sid =
      (case map_of es sid of
         Some s \<Rightarrow> if GetState s = StateDetached \<and> M_ttl m < time_sub (now sid) (S_LastActiveAt s)
                   then None else Manager_Get m sid
       | None \<Rightarrow> Manager_Get m sid)"
proof (induction es arbitrary: m)
  case Nil
  then show ?case by simp
next
  case (Cons e es)
  obtain k s where e: "e = (k, s)" by (cases e)
  have "sid = k \<Longrightarrow> map_of es sid = None"
    using Cons.prems e by (auto simp: map_of_eq_None_iff)
  with Cons e show ?case
    by (auto simp: cleanup_visit_def Manager_Get_def split: option.splits)
qed

lemma cleanup_fold:
  "cleanup now m = fold (\<lambda>(k, s) m. snd (cleanup_visit now k s m)) (M_sessions m) m"
proof -
  have "cleanup_visit now = (\<lambda>k s m. (True, snd (cleanup_visit now k s m)))"
    by (auto simp: cleanup_visit_def fun_eq_iff)
  then have "cleanup now m =
      sm_range (\<lambda>k s m. (True, snd (cleanup_visit now k s m))) (M_sessions m) m"
    unfolding cleanup_def by (rule arg_cong)
  then show ?thesis by (simp only: sm_range_true)
qed

lemma cleanup_Get:
  assumes "manager_wf m"
  shows "Manager_Get (cleanup now m) sid =
    (case Manager_Get m sid of
       None \<Rightarrow> None
     | Some s \<Rightarrow> if GetState s = StateDetached \<and> M_ttl m < time_sub (now sid) (S_LastActiveAt s)
                 then None else Some s)"
  using assms fold_cleanup [of "M_sessions m" now m sid]
  by (auto simp: cleanup_fold manager_wf_def sm_wf_def Manager_Get_def sm_load_def split: option.splits)

lemma manager_wf_visit: "manager_wf m \<Longrightarrow> manager_wf (snd (cleanup_visit now k s m))"
  using manager_wf_unregister [of m k] by (simp add: cleanup_visit_def Manager_Unregister_def)

lemma fold_visit_keeps:
  "manager_wf m \<Longrightarrow> manager_wf (fold (\<lambda>(k, s) m. snd (cleanup_visit now k s m)) es m)"
  "M_ttl (fold (\<lambda>(k, s) m. snd (cleanup_visit now k s m)) es m) = M_ttl m"
  by (induction es arbitrary: m) (auto simp: manager_wf_visit, auto simp: cleanup_visit_def)

lemma manager_wf_cleanup: "manager_wf m \<Longrightarrow> manager_wf (cleanup now m)"
  by (simp add: cleanup_fold fold_visit_keeps)

lemma cleanup_keeps:
  "manager_wf m \<Longrightarrow> Manager_Get m sid = Some s \<Longrightarrow> S_State s \<noteq> StateDetached \<Longrightarrow>
    Manager_Get (cleanup now m) sid = Some s"
  by (simp add: cleanup_Get GetState_def)

lemma cleanupLoop_keeps:
  "manager_wf m \<Longrightarrow> Manager_Get m sid = Some s \<Longrightarrow> S_State s \<noteq> StateDetached \<Longrightarrow>
    Manager_Get (cleanupLoop es m) sid = Some s"
  by (induction es m rule: cleanupLoop.induct) (simp_all add: cleanup_keeps manager_wf_cleanup)

section \<open>Properties\<close>

definition example_session :: Session where
  "example_session = Detach 0 (NewSession 0 7 ''user1'' ''host1'')"

definition example_manager :: Manager where
  "example_manager = Manager_Register example_session NewManager"

lemma example_manager_facts [simp]:
  "manager_wf example_manager" "M_ttl example_manager = DefaultTTL"
  "Manager_Get example_manager 7 = Some example_session"
  "S_State example_session = StateDetached" "S_LastActiveAt example_session = 0"
  by (simp_all add: example_manager_def manager_wf_register manager_wf_new)
    (simp_all add: Manager_Register_def Manager_Get_def NewManager_def example_session_def Detach_def
      NewSession_def)

text \<open>C7: \<open>HandleReconnect\<close> on every branch. An unknown id, and a session that is not detached, are
  refused and nothing changes; a session detached for more than ten minutes is refused and marked
  expired; a session detached for at most ten minutes becomes active with the current time. No
  other session changes.\<close>

theorem handle_reconnect_contract:
  assumes "manager_wf m" and "HandleReconnect since now sid m = (r, m')"
  shows "case Manager_Get m sid of
      None \<Rightarrow> r = Inl (SessionNotFound sid) \<and> Manager_Get m' = Manager_Get m
    | Some s \<Rightarrow>
        if S_State s \<noteq> StateDetached
        then r = Inl (NotInDetachedState sid) \<and> Manager_Get m' = Manager_Get m
        else if 600 * 10 ^ 9 < since - S_LastActiveAt s
        then r = Inl (SessionExpired sid) \<and>
          Manager_Get m' = (Manager_Get m)(sid \<mapsto> s\<lparr>S_State := StateExpired\<rparr>)
        else r = Inr (s\<lparr>S_State := StateActive, S_LastActiveAt := now\<rparr>) \<and>
          Manager_Get m' = (Manager_Get m)(sid \<mapsto> s\<lparr>S_State := StateActive, S_LastActiveAt := now\<rparr>)"
proof (cases "Manager_Get m sid")
  case None
  with assms(2) show ?thesis by (simp add: HandleReconnect_def)
next
  case (Some s)
  have ttl: "DefaultReconnectTTL = 600 * 10 ^ 9"
    by (simp add: DefaultReconnectTTL_def Minute_def Second_def)
  have "S_SessionID s = sid" using assms(1) Some by (rule manager_wf_Get)
  with Some assms(2) show ?thesis
    by (auto simp: HandleReconnect_def Attach_cases CanReconnect_iff IsExpired_iff ttl fun_eq_iff
        split: if_splits)
qed

theorem handle_reconnect_contract_witness:
  "Manager_Get (snd (HandleReconnect 5 6 7 example_manager)) 7 =
    Some (example_session\<lparr>S_State := StateActive, S_LastActiveAt := 6\<rparr>)"
  using handle_reconnect_contract [of example_manager 5 6 7 "fst (HandleReconnect 5 6 7 example_manager)"
      "snd (HandleReconnect 5 6 7 example_manager)"] by simp

text \<open>C38: a session is taken over by one client at a time: once a reconnection has succeeded, a
  further one for the same session fails, whatever the clock, and changes nothing.\<close>

theorem reconnect_once:
  assumes "manager_wf m" and "HandleReconnect since now sid m = (Inr s, m')"
  shows "\<exists>m''. HandleReconnect since' now' sid m' = (Inl (NotInDetachedState sid), m'') \<and>
    Manager_Get m'' = Manager_Get m'"
proof -
  from assms(2) obtain s0 where s0: "Manager_Get m sid = Some s0"
    "s = s0\<lparr>S_State := StateActive, S_LastActiveAt := now\<rparr>" "m' = update_session sid s m"
    by (auto simp: HandleReconnect_def Attach_cases split: option.splits if_splits)
  moreover have "S_SessionID s0 = sid" using assms(1) s0(1) by (rule manager_wf_Get)
  ultimately show ?thesis
    by (auto simp: HandleReconnect_def Attach_def fun_eq_iff)
qed

theorem reconnect_once_witness:
  "\<exists>m''. HandleReconnect 8 9 7 (snd (HandleReconnect 5 6 7 example_manager)) =
      (Inl (NotInDetachedState 7), m'') \<and>
    Manager_Get m'' = Manager_Get (snd (HandleReconnect 5 6 7 example_manager))"
proof (rule reconnect_once)
  show "HandleReconnect 5 6 7 example_manager =
      (Inr (example_session\<lparr>S_State := StateActive, S_LastActiveAt := 6\<rparr>),
       snd (HandleReconnect 5 6 7 example_manager))"
    by (simp add: HandleReconnect_def Attach_cases CanReconnect_iff DefaultReconnectTTL_def
        Minute_def Second_def)
qed simp



text \<open>A session that \<open>Attach\<close> has marked expired stays in the registry for ever: the sweep only
  looks at detached sessions, so no sequence of its events removes an expired (or closed) one, and
  reconnecting to it fails at any time.\<close>

theorem expired_session_leaks:
  assumes "manager_wf m" "Manager_Get m sid = Some s" "S_State s = StateExpired"
  shows "Manager_Get (cleanupLoop es m) sid = Some s \<and>
    fst (HandleReconnect since now sid (cleanupLoop es m)) = Inl (NotInDetachedState sid)"
proof -
  have "Manager_Get (cleanupLoop es m) sid = Some s"
    using assms by (simp add: cleanupLoop_keeps)
  moreover have "S_SessionID s = sid" using assms(1,2) by (rule manager_wf_Get)
  ultimately show ?thesis using assms(3) by (simp add: HandleReconnect_def Attach_def)
qed

theorem expired_session_leaks_witness:
  "Manager_Get (cleanupLoop [CleanupTick (\<lambda>_. 10 ^ 15), CleanupTick (\<lambda>_. 10 ^ 16)]
      (update_session 7 (example_session\<lparr>S_State := StateExpired\<rparr>) example_manager)) 7 =
    Some (example_session\<lparr>S_State := StateExpired\<rparr>)"
proof -
  have "S_SessionID example_session = 7"
    by (simp add: example_session_def Detach_def NewSession_def)
  then have "update_session 7 (example_session\<lparr>S_State := StateExpired\<rparr>) example_manager =
      Manager_Register (example_session\<lparr>S_State := StateExpired\<rparr>) example_manager"
    by (simp add: update_session_def Manager_Register_def)
  then have "manager_wf (update_session 7 (example_session\<lparr>S_State := StateExpired\<rparr>) example_manager)"
    by (simp add: manager_wf_register)
  from expired_session_leaks [OF this, of 7 "example_session\<lparr>S_State := StateExpired\<rparr>"]
  show ?thesis by (simp del: cleanupLoop.simps)
qed

section \<open>The life cycle as a state machine\<close>

text \<open>The documented life cycle: active and detached alternate, a detached session may expire, an
  active or expired one may be closed; nothing leaves closed.\<close>

inductive doc_step :: "State \<Rightarrow> State \<Rightarrow> bool" where
  disconnect: "doc_step StateActive StateDetached"
| reconnect: "doc_step StateDetached StateActive"
| ttl: "doc_step StateDetached StateExpired"
| release: "doc_step StateActive StateClosed"
| recycle: "doc_step StateExpired StateClosed"

inductive_simps doc_step_simps: "doc_step a b"

text \<open>What the operations of the package can do to a session, each at its own clock reading.\<close>

inductive session_step :: "Session \<Rightarrow> Session \<Rightarrow> bool" where
  detach: "session_step s (Detach now s)"
| attach: "Attach since now s = (e, s') \<Longrightarrow> session_step s s'"
| slow: "session_step s (SetSlow b s)"
| prompt: "session_step s (SetPromptState ps s)"

inductive session_reachable :: "Session \<Rightarrow> bool" where
  new: "session_reachable (NewSession now sid user host)"
| step: "session_reachable s \<Longrightarrow> session_step s s' \<Longrightarrow> session_reachable s'"

inductive_cases session_stepE: "session_step s s'"

lemma attach_doc_step:
  "Attach since now s = (e, s') \<Longrightarrow> S_State s' = S_State s \<or> doc_step (S_State s) (S_State s')"
  by (auto simp: Attach_def doc_step_simps split: if_splits)

lemma session_step_identity:
  "session_step s s' \<Longrightarrow> S_SessionID s' = S_SessionID s \<and> S_UserID s' = S_UserID s \<and>
    S_HostID s' = S_HostID s \<and> S_Cols s' = S_Cols s \<and> S_Rows s' = S_Rows s"
  by (auto elim!: session_stepE simp: Detach_def Attach_def SetSlow_def SetPromptState_def
      split: if_splits)



text \<open>\<open>Detach\<close> has no guard, so it brings back a session from any state, expired and closed
  included: within ten minutes of it \<open>Attach\<close> succeeds and the session is active again, a step the
  documented life cycle does not have.\<close>

theorem detach_revives:
  assumes "since - now \<le> 600 * 10 ^ 9"
  shows "fst (Attach since now' (Detach now s)) = None \<and>
    S_State (snd (Attach since now' (Detach now s))) = StateActive \<and>
    \<not> doc_step StateExpired (S_State (Detach now s)) \<and> \<not> doc_step StateClosed (S_State (Detach now s))"
  using assms
  by (auto simp: Attach_cases CanReconnect_iff Detach_def DefaultReconnectTTL_def Minute_def
      Second_def doc_step_simps)

theorem detach_revives_witness:
  "S_State (snd (Attach 3 4 (Detach 2 (SetState StateClosed (NewSession 0 7 ''u'' ''h''))))) = StateActive"
  using detach_revives [of 3 2 4 "SetState StateClosed (NewSession 0 7 ''u'' ''h'')"] by simp

end
