(* ===== verification/Multiexec.thy ===== *)
theory Multiexec
  imports Session "HOL-Library.Multiset"
begin

text \<open>
  The input broadcast of \<open>gateway/internal/multiexec/engine.go\<close>. A shell stream is a handle; the
  world records, per handle, every write attempted on it with its outcome, and the outcome of a
  write is chosen by the environment from the stream's history. \<open>BroadcastSync\<close> writes in the
  caller; \<open>Broadcast\<close> starts one goroutine per target, which run in any order.
\<close>

section \<open>Streams\<close>

type_synonym attempt = "byte list \<times> nat \<times> string option"
type_synonym world = "nat \<Rightarrow> attempt list"
type_synonym stream_io = "nat \<Rightarrow> attempt list \<Rightarrow> byte list \<Rightarrow> nat \<times> string option"

definition stream_write :: "stream_io \<Rightarrow> nat \<Rightarrow> byte list \<Rightarrow> world \<Rightarrow> string option \<times> world" where
  "stream_write io h data w =
     (let (n, err) = io h (w h) data in (err, w(h := w h @ [(data, n, err)])))"

section \<open>The engine\<close>

datatype broadcast_error =
    ErrNotFound u32
  | ErrNotActive u32
  | ErrSlow u32
  | ErrWrite u32 string

fun BroadcastSync_loop ::
  "stream_io \<Rightarrow> Manager \<Rightarrow> byte list \<Rightarrow> u32 \<Rightarrow> u32 list \<Rightarrow> broadcast_error list \<Rightarrow> world \<Rightarrow>
    (broadcast_error list \<times> world) go" where
  "BroadcastSync_loop io m input src [] errs w = Inr (errs, w)"
| "BroadcastSync_loop io m input src (targetID # ts) errs w =
     (if targetID = src then BroadcastSync_loop io m input src ts errs w
      else case Manager_Get m targetID of
        None \<Rightarrow> BroadcastSync_loop io m input src ts (errs @ [ErrNotFound targetID]) w
      | Some s \<Rightarrow>
          if GetState s \<noteq> StateActive
          then BroadcastSync_loop io m input src ts (errs @ [ErrNotActive targetID]) w
          else if GetSlow s
          then BroadcastSync_loop io m input src ts (errs @ [ErrSlow targetID]) w
          else (case S_ShellStream s of
              None \<Rightarrow> Inl NilDereference
            | Some h \<Rightarrow>
                (case stream_write io h input w of
                   (None, w') \<Rightarrow> BroadcastSync_loop io m input src ts errs w'
                 | (Some e, w') \<Rightarrow>
                     BroadcastSync_loop io m input src ts (errs @ [ErrWrite targetID e]) w')))"

definition BroadcastSync ::
  "stream_io \<Rightarrow> Manager \<Rightarrow> byte list \<Rightarrow> u32 \<Rightarrow> u32 list \<Rightarrow> world \<Rightarrow> (broadcast_error list \<times> world) go" where
  "BroadcastSync io m input src targets w = BroadcastSync_loop io m input src targets [] w"

text \<open>The asynchronous variant returns the errors and the goroutines it started.\<close>

type_synonym task = "Session \<times> byte list"

fun Broadcast_loop ::
  "Manager \<Rightarrow> byte list \<Rightarrow> u32 \<Rightarrow> u32 list \<Rightarrow> broadcast_error list \<Rightarrow> task list \<Rightarrow>
    broadcast_error list \<times> task list" where
  "Broadcast_loop m input src [] errs tasks = (errs, tasks)"
| "Broadcast_loop m input src (targetID # ts) errs tasks =
     (if targetID = src then Broadcast_loop m input src ts errs tasks
      else case Manager_Get m targetID of
        None \<Rightarrow> Broadcast_loop m input src ts (errs @ [ErrNotFound targetID]) tasks
      | Some s \<Rightarrow>
          if GetState s \<noteq> StateActive
          then Broadcast_loop m input src ts (errs @ [ErrNotActive targetID]) tasks
          else if GetSlow s
          then Broadcast_loop m input src ts (errs @ [ErrSlow targetID]) tasks
          else Broadcast_loop m input src ts errs (tasks @ [(s, input)]))"

definition Broadcast ::
  "Manager \<Rightarrow> byte list \<Rightarrow> u32 \<Rightarrow> u32 list \<Rightarrow> broadcast_error list \<times> task list" where
  "Broadcast m input src targets = Broadcast_loop m input src targets [] []"

text \<open>The started goroutines: the scheduler picks any of them next; a write error is only printed,
  a nil stream panics and ends the process.\<close>

inductive tasks_run :: "stream_io \<Rightarrow> task list \<Rightarrow> world \<Rightarrow> world go \<Rightarrow> bool" for io where
  finished: "tasks_run io [] w (Inr w)"
| run: "i < length ts \<Longrightarrow> ts ! i = (s, data) \<Longrightarrow> S_ShellStream s = Some h \<Longrightarrow>
    tasks_run io (take i ts @ drop (Suc i) ts) (snd (stream_write io h data w)) r \<Longrightarrow>
    tasks_run io ts w r"
| nil_stream: "i < length ts \<Longrightarrow> ts ! i = (s, data) \<Longrightarrow> S_ShellStream s = None \<Longrightarrow>
    tasks_run io ts w (Inl NilDereference)"

definition GetActiveSessions :: "Manager \<Rightarrow> u32 list" where
  "GetActiveSessions m =
     Manager_Range (\<lambda>s ids. (True, if GetState s = StateActive then ids @ [S_SessionID s] else ids)) m []"

definition GetSlowSessions :: "Manager \<Rightarrow> u32 list" where
  "GetSlowSessions m =
     Manager_Range (\<lambda>s ids. (True, if GetSlow s then ids @ [S_SessionID s] else ids)) m []"

section \<open>What a broadcast does to each target\<close>

datatype verdict = Skip | Refuse broadcast_error | Deliver "nat option"

definition verdict_of :: "Manager \<Rightarrow> u32 \<Rightarrow> u32 \<Rightarrow> verdict" where
  "verdict_of m src tid =
     (if tid = src then Skip
      else case Manager_Get m tid of
        None \<Rightarrow> Refuse (ErrNotFound tid)
      | Some s \<Rightarrow>
          if GetState s \<noteq> StateActive then Refuse (ErrNotActive tid)
          else if GetSlow s then Refuse (ErrSlow tid) else Deliver (S_ShellStream s))"

definition deliveries :: "Manager \<Rightarrow> u32 \<Rightarrow> u32 list \<Rightarrow> nat \<Rightarrow> nat" where
  \<comment> \<open>how often the stream \<open>h\<close> is written\<close>
  "deliveries m src ts h = length (filter (\<lambda>tid. verdict_of m src tid = Deliver (Some h)) ts)"

lemma sync_step:
  "BroadcastSync_loop io m input src (tid # ts) errs w =
    (case verdict_of m src tid of
       Skip \<Rightarrow> BroadcastSync_loop io m input src ts errs w
     | Refuse e \<Rightarrow> BroadcastSync_loop io m input src ts (errs @ [e]) w
     | Deliver None \<Rightarrow> Inl NilDereference
     | Deliver (Some h) \<Rightarrow>
         (case stream_write io h input w of
            (None, w') \<Rightarrow> BroadcastSync_loop io m input src ts errs w'
          | (Some e, w') \<Rightarrow> BroadcastSync_loop io m input src ts (errs @ [ErrWrite tid e]) w'))"
  by (auto simp: verdict_of_def split: option.splits)

lemma stream_write_snd [simp]:
  "map fst (snd (stream_write io h data w) k) = map fst (w k) @ (if k = h then [data] else [])"
  by (simp add: stream_write_def split: prod.split)

lemma stream_write_log: "stream_write io h data w = (e, w') \<Longrightarrow>
    map fst (w' k) = map fst (w k) @ (if k = h then [data] else [])"
  using stream_write_snd [of io h data w k] by simp

lemma sync_loop_writes:
  "BroadcastSync_loop io m input src ts errs w = Inr (errs', w') \<Longrightarrow>
    map fst (w' h) = map fst (w h) @ replicate (deliveries m src ts h) input"
proof (induction ts arbitrary: errs w)
  case Nil
  then show ?case by (simp add: deliveries_def)
next
  case (Cons tid ts)
  show ?case
  proof (cases "verdict_of m src tid")
    case Skip
    with Cons show ?thesis by (simp add: sync_step deliveries_def del: BroadcastSync_loop.simps)
  next
    case (Refuse e)
    with Cons show ?thesis by (simp add: sync_step deliveries_def del: BroadcastSync_loop.simps)
  next
    case (Deliver hs)
    with Cons.prems obtain g where g: "hs = Some g"
      by (cases hs) (auto simp: sync_step simp del: BroadcastSync_loop.simps)
    obtain e w1 where wr: "stream_write io g input w = (e, w1)" by (cases "stream_write io g input w")
    with Cons.prems Deliver g obtain errs1 where
      "BroadcastSync_loop io m input src ts errs1 w1 = Inr (errs', w')"
      by (cases e) (auto simp: sync_step simp del: BroadcastSync_loop.simps)
    from Cons.IH [OF this] stream_write_log [OF wr, of h] Deliver g show ?thesis
      by (auto simp: deliveries_def replicate_append_same simp flip: replicate_Suc)
  qed
qed

lemma sync_loop_panics:
  "(\<exists>p. BroadcastSync_loop io m input src ts errs w = Inl p) \<longleftrightarrow>
    (\<exists>tid\<in>set ts. verdict_of m src tid = Deliver None)"
proof (induction ts arbitrary: errs w)
  case Nil
  then show ?case by simp
next
  case (Cons tid ts)
  then show ?case
    by (auto simp: sync_step simp del: BroadcastSync_loop.simps
        split: verdict.splits option.splits prod.splits)
qed

definition refusals :: "Manager \<Rightarrow> u32 \<Rightarrow> u32 list \<Rightarrow> broadcast_error list" where
  "refusals m src ts =
     concat (map (\<lambda>tid. case verdict_of m src tid of Refuse e \<Rightarrow> [e] | _ \<Rightarrow> []) ts)"

fun is_write_error :: "broadcast_error \<Rightarrow> bool" where
  "is_write_error (ErrWrite _ _) = True"
| "is_write_error _ = False"

lemma verdict_refuse: "verdict_of m src tid = Refuse e \<Longrightarrow> \<not> is_write_error e"
  by (auto simp: verdict_of_def split: if_splits option.splits)

lemma sync_loop_errors:
  "BroadcastSync_loop io m input src ts errs w = Inr (errs', w') \<Longrightarrow>
    filter (\<lambda>e. \<not> is_write_error e) errs' =
      filter (\<lambda>e. \<not> is_write_error e) errs @ refusals m src ts"
proof (induction ts arbitrary: errs w)
  case Nil
  then show ?case by (simp add: refusals_def)
next
  case (Cons tid ts)
  then show ?case
    by (fastforce simp: sync_step refusals_def simp del: BroadcastSync_loop.simps
        dest: verdict_refuse split: verdict.splits option.splits prod.splits)
qed

lemma Manager_Range_ids:
  "Manager_Range (\<lambda>s ids. (True, if P s then ids @ [S_SessionID s] else ids)) m acc =
    acc @ map S_SessionID (filter P (map snd (M_sessions m)))"
proof -
  have "fold (\<lambda>(k, s) ids. if P s then ids @ [S_SessionID s] else ids) es acc =
      acc @ map S_SessionID (filter P (map snd es))" for es :: "(u32 \<times> Session) list"
    by (induction es arbitrary: acc) auto
  then show ?thesis by (simp add: Manager_Range_def sm_range_true)
qed

lemma Manager_ids:
  assumes "manager_wf m"
  shows "sid \<in> set (map S_SessionID (filter P (map snd (M_sessions m)))) \<longleftrightarrow>
    (\<exists>s. Manager_Get m sid = Some s \<and> P s)"
  using assms
  by (force simp: manager_wf_def Manager_Get_def sm_load_entry list_all_iff)

section \<open>The goroutines\<close>

definition tasks_for :: "nat \<Rightarrow> task list \<Rightarrow> byte list list" where
  "tasks_for h ts = map snd (filter (\<lambda>(s, d). S_ShellStream s = Some h) ts)"

lemma mset_take_drop: "i < length ts \<Longrightarrow> mset ts = add_mset (ts ! i) (mset (take i ts @ drop (Suc i) ts))"
  by (metis id_take_nth_drop mset_append mset.simps(2) union_mset_add_mset_right)

lemma mset_tasks_for:
  "mset (tasks_for h ts) = image_mset snd (filter_mset (\<lambda>(s, d). S_ShellStream s = Some h) (mset ts))"
  by (simp add: tasks_for_def mset_filter)

lemma tasks_run_delivers:
  "tasks_run io ts w r \<Longrightarrow> r = Inr w' \<Longrightarrow>
    mset (map fst (w' h)) = mset (map fst (w h)) + mset (tasks_for h ts)"
proof (induction arbitrary: w' rule: tasks_run.induct)
  case (finished w)
  then show ?case by (simp add: tasks_for_def)
next
  case (run i ts s data g w r)
  have "mset (tasks_for h ts) =
      (if g = h then {#data#} else {#}) + mset (tasks_for h (take i ts @ drop (Suc i) ts))"
    using run.hyps by (simp add: mset_tasks_for mset_take_drop [of i ts])
  moreover have "mset (map fst (snd (stream_write io g data w) h)) =
      mset (map fst (w h)) + (if g = h then {#data#} else {#})"
    using stream_write_log [of io g data w _ _ h] by (cases "stream_write io g data w") auto
  ultimately show ?case using run.IH [OF run.prems] by simp
next
  case (nil_stream i ts s data w)
  then show ?case by simp
qed

lemma Broadcast_loop_spec:
  "Broadcast_loop m input src ts errs tasks =
    (errs @ refusals m src ts,
     tasks @ concat (map (\<lambda>tid. case verdict_of m src tid of
       Deliver _ \<Rightarrow> [(the (Manager_Get m tid), input)] | _ \<Rightarrow> []) ts))"
  by (induction ts arbitrary: errs tasks)
    (auto simp: refusals_def verdict_of_def split: option.splits)

lemma Broadcast_tasks_for:
  "tasks_for h (snd (Broadcast m input src ts)) = replicate (deliveries m src ts h) input"
  unfolding Broadcast_def Broadcast_loop_spec
  by (induction ts)
    (auto simp: tasks_for_def deliveries_def verdict_of_def split: option.splits)

section \<open>Properties\<close>

fun BroadcastSync_all ::
  "stream_io \<Rightarrow> Manager \<Rightarrow> u32 \<Rightarrow> u32 list \<Rightarrow> byte list list \<Rightarrow> world \<Rightarrow> world go" where
  \<comment> \<open>one call after the other\<close>
  "BroadcastSync_all io m src ts [] w = Inr w"
| "BroadcastSync_all io m src ts (i # is) w =
     (case BroadcastSync io m i src ts w of
        Inl p \<Rightarrow> Inl p
      | Inr (_, w') \<Rightarrow> BroadcastSync_all io m src ts is w')"

definition io_ok :: stream_io where
  "io_ok h hist data = (length data, None)"

definition mex_session :: "u32 \<Rightarrow> nat \<Rightarrow> Session" where
  "mex_session sid h = (NewSession 0 sid ''user'' ''host'')\<lparr>S_ShellStream := Some h\<rparr>"

definition mex_manager :: Manager where
  "mex_manager = Manager_Register (mex_session 1 11) (Manager_Register (mex_session 2 22)
     (Manager_Register (SetSlow True (mex_session 3 33)) NewManager))"

lemma mex_Get [simp]:
  "Manager_Get mex_manager 1 = Some (mex_session 1 11)"
  "Manager_Get mex_manager 2 = Some (mex_session 2 22)"
  "Manager_Get mex_manager 3 = Some (SetSlow True (mex_session 3 33))"
  "Manager_Get mex_manager 4 = None"
  by (simp_all add: mex_manager_def sessions.look_add SetSlow_def mex_session_def NewSession_def)
    (simp add: NewManager_def Manager_Get_def)

lemma mex_verdicts [simp]:
  "verdict_of mex_manager 1 1 = Skip" "verdict_of mex_manager 1 2 = Deliver (Some 22)"
  "verdict_of mex_manager 1 3 = Refuse (ErrSlow 3)" "verdict_of mex_manager 1 4 = Refuse (ErrNotFound 4)"
  by (simp_all add: verdict_of_def GetState_def GetSlow_def SetSlow_def)
    (simp_all add: mex_session_def NewSession_def)



text \<open>A synchronous broadcast panics exactly when one of the targets it would write has no shell
  stream yet (\<open>NewSession\<close> leaves it nil).\<close>

theorem broadcast_sync_panic:
  "(\<exists>p. BroadcastSync io m input src ts w = Inl p) \<longleftrightarrow>
    (\<exists>tid\<in>set ts. verdict_of m src tid = Deliver None)"
  unfolding BroadcastSync_def by (rule sync_loop_panics)

text \<open>Synchronous broadcasts keep FIFO order: after a sequence of inputs, every stream has been
  written the inputs in that order (each as often as its session is listed).\<close>

theorem broadcast_sync_fifo:
  assumes "BroadcastSync_all io m src ts inputs w = Inr w'"
  shows "map fst (w' h) = map fst (w h) @ concat (map (replicate (deliveries m src ts h)) inputs)"
  using assms
proof (induction inputs arbitrary: w)
  case Nil
  then show ?case by simp
next
  case (Cons i "is")
  then obtain errs w1 where step: "BroadcastSync_loop io m i src ts [] w = Inr (errs, w1)"
    and rest: "BroadcastSync_all io m src ts is w1 = Inr w'"
    by (auto simp: BroadcastSync_def split: sum.splits)
  from Cons.IH [OF rest] sync_loop_writes [OF step, of h] show ?case by simp
qed

theorem broadcast_sync_fifo_witness:
  "\<exists>w'. BroadcastSync_all io_ok mex_manager 1 [1, 2] [[97], [98]] (\<lambda>_. []) = Inr w' \<and>
    map fst (w' 22) = [[97], [98]]"
proof -
  have "\<exists>w'. BroadcastSync_all io_ok mex_manager 1 [1, 2] [[97], [98]] (\<lambda>_. []) = Inr w'"
    by (simp add: BroadcastSync_def stream_write_def io_ok_def GetState_def GetSlow_def
        mex_session_def NewSession_def)
  then obtain w' where run: "BroadcastSync_all io_ok mex_manager 1 [1, 2] [[97], [98]] (\<lambda>_. []) = Inr w'" ..
  from broadcast_sync_fifo [OF run, of 22] run show ?thesis by (simp add: deliveries_def)
qed

text \<open>The asynchronous broadcast delivers the same writes: however the scheduler interleaves the
  goroutines of several calls, when all have run each stream has been written each input exactly as
  often as the calls list an eligible target on it (in some order).\<close>

theorem broadcast_async_exactly_once:
  assumes "tasks_run io (concat (map (\<lambda>i. snd (Broadcast m i src ts)) inputs)) w (Inr w')"
  shows "mset (map fst (w' h)) =
    mset (map fst (w h)) + mset (concat (map (replicate (deliveries m src ts h)) inputs))"
proof -
  have "tasks_for h (concat (map (\<lambda>i. snd (Broadcast m i src ts)) inputs)) =
      concat (map (replicate (deliveries m src ts h)) inputs)"
  proof (induction inputs)
    case (Cons i "is")
    then show ?case using Broadcast_tasks_for [of h m i src ts] by (simp add: tasks_for_def)
  qed (simp add: tasks_for_def)
  with tasks_run_delivers [OF assms refl, of h] show ?thesis by simp
qed

lemma mex_task: "snd (Broadcast mex_manager i 1 [2]) = [(mex_session 2 22, i)]"
  by (simp add: Broadcast_def Broadcast_loop_spec)

lemma mex_stream [simp]: "S_ShellStream (mex_session sid h) = Some h"
  by (simp add: mex_session_def)

theorem broadcast_async_exactly_once_witness:
  "\<exists>w'. tasks_run io_ok (concat (map (\<lambda>i. snd (Broadcast mex_manager i 1 [2])) [[97]])) (\<lambda>_. []) (Inr w') \<and>
    mset (map fst (w' 22)) = {#[97]#}"
proof -
  let ?w = "snd (stream_write io_ok 22 [97] (\<lambda>_. []))"
  have run: "tasks_run io_ok (concat (map (\<lambda>i. snd (Broadcast mex_manager i 1 [2])) [[97]])) (\<lambda>_. []) (Inr ?w)"
    by (rule tasks_run.run [of 0 _ "mex_session 2 22" "[97]" 22])
      (simp_all add: mex_task tasks_run.finished)
  from broadcast_async_exactly_once [OF run, of 22] have "mset (map fst (?w 22)) = {#[97]#}"
    by (simp add: deliveries_def)
  from conjI [OF run this] show ?thesis by (rule exI [of _ ?w])
qed

text \<open>C39: asynchronous broadcasts do not keep FIFO order: for two successive inputs to one eligible
  target there is a schedule in which the second reaches the stream first.\<close>

theorem broadcast_async_reorders:
  assumes "verdict_of m src tid = Deliver (Some h)"
  shows "\<exists>w'. tasks_run io (snd (Broadcast m a src [tid]) @ snd (Broadcast m b src [tid])) w (Inr w') \<and>
    map fst (w' h) = map fst (w h) @ [b, a]"
proof -
  obtain s where s: "Manager_Get m tid = Some s" "S_ShellStream s = Some h"
    using assms by (auto simp: verdict_of_def split: if_splits option.splits)
  have tasks: "snd (Broadcast m a src [tid]) @ snd (Broadcast m b src [tid]) = [(s, a), (s, b)]"
    using assms s by (simp add: Broadcast_def Broadcast_loop_spec)
  let ?w1 = "snd (stream_write io h b w)" let ?w2 = "snd (stream_write io h a ?w1)"
  have "tasks_run io [(s, a)] ?w1 (Inr ?w2)"
    by (rule tasks_run.run [of 0 _ s a h]) (simp_all add: s tasks_run.finished)
  then have "tasks_run io [(s, a), (s, b)] w (Inr ?w2)"
    using tasks_run.run [of 1 "[(s, a), (s, b)]" s b h io w "Inr ?w2"] s(2) by simp
  moreover have "map fst (?w2 h) = map fst (w h) @ [b, a]"
    by simp
  ultimately show ?thesis unfolding tasks by blast
qed

theorem broadcast_async_reorders_witness:
  "\<exists>w'. tasks_run io_ok (snd (Broadcast mex_manager [97] 1 [2]) @ snd (Broadcast mex_manager [98] 1 [2]))
      (\<lambda>_. []) (Inr w') \<and> map fst (w' 22) = [[98], [97]]"
  using broadcast_async_reorders [of mex_manager 1 2 22 io_ok "[97]" "[98]" "\<lambda>_. []"] by simp

text \<open>\<open>GetActiveSessions\<close> and \<open>GetSlowSessions\<close> list exactly the registered sessions that are
  active, or slow.\<close>

theorem session_listings:
  assumes "manager_wf m"
  shows "(sid \<in> set (GetActiveSessions m) \<longleftrightarrow>
      (\<exists>s. Manager_Get m sid = Some s \<and> S_State s = StateActive)) \<and>
    (sid \<in> set (GetSlowSessions m) \<longleftrightarrow> (\<exists>s. Manager_Get m sid = Some s \<and> S_IsSlow s))"
  using Manager_ids [OF assms]
  by (simp add: GetActiveSessions_def GetSlowSessions_def Manager_Range_ids GetState_def GetSlow_def)

theorem session_listings_witness: "3 \<in> set (GetSlowSessions mex_manager)"
proof -
  have "manager_wf mex_manager"
    by (simp add: mex_manager_def manager_wf_register manager_wf_new)
  from session_listings [OF this, of 3] show ?thesis by (simp add: SetSlow_def)
qed

end
