(* ===== verification/Regexp.thy ===== *)
theory Regexp
  imports Prelude "HOL-Library.Char_ord" "HOL-Library.Sublist"
begin

text \<open>
  The part of Go's \<open>regexp\<close> package the gateway uses: decoding UTF-8 into runes, the syntax accepted
  by \<open>regexp.Compile\<close> with its errors, leftmost-first matching, \<open>MatchString\<close> and \<open>ReplaceAllString\<close>
  with its template. Syntax outside the gateway's patterns (named groups, flags other than \<open>i\<close>,
  Unicode classes, octal escapes) is answered \<open>Unsupported\<close>, which no lemma relies on.
\<close>

section \<open>UTF-8\<close>

type_synonym rune = nat
type_synonym glyph = "rune \<times> string" \<comment> \<open>a rune with the bytes it was decoded from\<close>

abbreviation rn :: "char \<Rightarrow> rune" where "rn c \<equiv> of_char c"

definition RuneError :: rune where "RuneError = 65533"

definition cont :: "nat \<Rightarrow> nat \<Rightarrow> char \<Rightarrow> bool" where
  "cont lo hi c \<longleftrightarrow> lo \<le> rn c \<and> rn c \<le> hi"

definition first_cont :: "nat \<Rightarrow> nat \<times> nat" where
  \<comment> \<open>range of the second byte after the lead byte\<close>
  "first_cont b = (if b = 224 then (160, 191) else if b = 237 then (128, 159)
     else if b = 240 then (144, 191) else if b = 244 then (128, 143) else (128, 191))"

definition decode_rune :: "char \<Rightarrow> string \<Rightarrow> rune \<times> nat" where
  \<comment> \<open>\<open>utf8.DecodeRuneInString\<close> on a non-empty string: the rune and its width; an invalid or
    truncated encoding is \<open>RuneError\<close> of width 1\<close>
  "decode_rune c0 s =
     (let b = rn c0; (lo, hi) = first_cont b in
      if b < 128 then (b, 1)
      else if 194 \<le> b \<and> b \<le> 223 then
        (case s of
           c1 # _ \<Rightarrow> if cont 128 191 c1 then ((b - 192) * 64 + (rn c1 - 128), 2) else (RuneError, 1)
         | _ \<Rightarrow> (RuneError, 1))
      else if 224 \<le> b \<and> b \<le> 239 then
        (case s of
           c1 # c2 # _ \<Rightarrow> if cont lo hi c1 \<and> cont 128 191 c2
             then ((b - 224) * 4096 + (rn c1 - 128) * 64 + (rn c2 - 128), 3) else (RuneError, 1)
         | _ \<Rightarrow> (RuneError, 1))
      else if 240 \<le> b \<and> b \<le> 244 then
        (case s of
           c1 # c2 # c3 # _ \<Rightarrow> if cont lo hi c1 \<and> cont 128 191 c2 \<and> cont 128 191 c3
             then ((b - 240) * 262144 + (rn c1 - 128) * 4096 + (rn c2 - 128) * 64 + (rn c3 - 128), 4)
             else (RuneError, 1)
         | _ \<Rightarrow> (RuneError, 1))
      else (RuneError, 1))"

function glyphs :: "string \<Rightarrow> glyph list" where
  "glyphs [] = []"
| "glyphs (c # s) =
     (let (r, n) = decode_rune c s
      in (r, c # take (n - 1) s) # glyphs (drop (n - 1) s))"
  by pat_completeness auto
termination
  by (relation "measure length") auto

definition bytes_of :: "glyph list \<Rightarrow> string" where
  "bytes_of gs = concat (map snd gs)"

lemma bytes_of_simps [simp]:
  "bytes_of [] = []" "bytes_of (g # gs) = snd g @ bytes_of gs"
  "bytes_of (gs @ hs) = bytes_of gs @ bytes_of hs"
  by (simp_all add: bytes_of_def)

lemma bytes_of_glyphs [simp]: "bytes_of (glyphs s) = s"
  by (induction s rule: glyphs.induct) (auto simp: Let_def split: prod.splits)

lemma glyphs_ascii [simp]: "rn c < 128 \<Longrightarrow> glyphs (c # s) = (rn c, [c]) # glyphs s"
  by (simp add: decode_rune_def split: prod.split)

declare glyphs.simps(2) [simp del]

section \<open>Expressions\<close>

datatype re =
    ReEmpty
  | ReLit bool rune \<comment> \<open>case-insensitive?\<close>
  | ReClass bool bool "(rune \<times> rune) list" \<comment> \<open>case-insensitive?, negated?, ranges\<close>
  | ReBegin
  | ReEnd
  | ReCat re re
  | ReAlt re re
  | ReStar bool re \<comment> \<open>greedy?\<close>
  | ReQuest bool re
  | ReCap nat re

definition canon :: "rune \<Rightarrow> rune" where
  \<comment> \<open>representative of the case orbit of an ASCII letter (with the Kelvin sign and long s)\<close>
  "canon r = (if 65 \<le> r \<and> r \<le> 90 then r + 32 else if r = 8490 then 107 else if r = 383 then 115 else r)"

definition orbit :: "rune \<Rightarrow> rune list" where
  "orbit r =
     (let c = canon r
      in c # (if 97 \<le> c \<and> c \<le> 122 then [c - 32] else []) @
         (if c = 107 then [8490] else if c = 115 then [383] else []))"

definition lit_matches :: "bool \<Rightarrow> rune \<Rightarrow> rune \<Rightarrow> bool" where
  "lit_matches ci c r \<longleftrightarrow> (if ci then canon c = canon r else c = r)"

definition in_ranges :: "(rune \<times> rune) list \<Rightarrow> rune \<Rightarrow> bool" where
  "in_ranges rs r \<longleftrightarrow> list_ex (\<lambda>(lo, hi). lo \<le> r \<and> r \<le> hi) rs"

definition class_matches :: "bool \<Rightarrow> bool \<Rightarrow> (rune \<times> rune) list \<Rightarrow> rune \<Rightarrow> bool" where
  "class_matches ci neg rs r \<longleftrightarrow>
     (list_ex (in_ranges rs) (if ci then orbit r else [r])) \<noteq> neg"

section \<open>Matching\<close>

text \<open>
  A state of the matcher is the position, the remaining input and the captures. The possible
  outcomes are listed in the order a backtracking (leftmost-first) matcher tries them; the first
  one is the match. A star takes another round only if the round consumes input.
\<close>

type_synonym mstate = "nat \<times> glyph list \<times> (nat \<times> nat \<times> nat) list"

fun iter_star :: "nat \<Rightarrow> bool \<Rightarrow> (mstate \<Rightarrow> mstate list) \<Rightarrow> mstate \<Rightarrow> mstate list" where
  "iter_star 0 greedy f st = [st]"
| "iter_star (Suc n) greedy f st =
     (let more = concat (map (\<lambda>st'. if fst st < fst st' then iter_star n greedy f st' else []) (f st))
      in if greedy then more @ [st] else st # more)"

primrec match_re :: "re \<Rightarrow> mstate \<Rightarrow> mstate list" where
  "match_re ReEmpty st = [st]"
| "match_re (ReLit ci c) st =
     (case st of (i, s, cs) \<Rightarrow> (case s of
        g # s' \<Rightarrow> if lit_matches ci c (fst g) then [(Suc i, s', cs)] else []
      | [] \<Rightarrow> []))"
| "match_re (ReClass ci neg rs) st =
     (case st of (i, s, cs) \<Rightarrow> (case s of
        g # s' \<Rightarrow> if class_matches ci neg rs (fst g) then [(Suc i, s', cs)] else []
      | [] \<Rightarrow> []))"
| "match_re ReBegin st = (if fst st = 0 then [st] else [])"
| "match_re ReEnd st = (if fst (snd st) = [] then [st] else [])"
| "match_re (ReCat r1 r2) st = concat (map (match_re r2) (match_re r1 st))"
| "match_re (ReAlt r1 r2) st = match_re r1 st @ match_re r2 st"
| "match_re (ReStar greedy r) st = iter_star (length (fst (snd st))) greedy (match_re r) st"
| "match_re (ReQuest greedy r) st = (if greedy then match_re r st @ [st] else st # match_re r st)"
| "match_re (ReCap k r) st = map (\<lambda>(j, s, cs). (j, s, (k, fst st, j) # cs)) (match_re r st)"

fun search_re :: "re \<Rightarrow> nat \<Rightarrow> glyph list \<Rightarrow> (nat \<times> mstate) option" where
  \<comment> \<open>the leftmost match at or after position \<open>i\<close>, of which \<open>s\<close> is the rest of the input\<close>
  "search_re r i [] = (case match_re r (i, [], []) of [] \<Rightarrow> None | st # _ \<Rightarrow> Some (i, st))"
| "search_re r i (g # s) =
     (case match_re r (i, g # s, []) of
        [] \<Rightarrow> search_re r (Suc i) s
      | st # _ \<Rightarrow> Some (i, st))"

definition MatchString :: "re \<Rightarrow> string \<Rightarrow> bool" where
  "MatchString r s \<longleftrightarrow> search_re r 0 (glyphs s) \<noteq> None"

section \<open>Replacement\<close>

datatype piece = PText string | PGroup nat

definition word_char :: "char \<Rightarrow> bool" where
  "word_char c \<longleftrightarrow> (48 \<le> rn c \<and> rn c \<le> 57) \<or> (65 \<le> rn c \<and> rn c \<le> 90) \<or>
     (97 \<le> rn c \<and> rn c \<le> 122) \<or> c = CHR ''_''"

definition group_piece :: "string \<Rightarrow> piece" where
  \<comment> \<open>a reference by number, or by a name (the gateway's patterns name no group: empty)\<close>
  "group_piece name =
     (if list_all (\<lambda>c. 48 \<le> rn c \<and> rn c \<le> 57) name
      then PGroup (foldl (\<lambda>n c. n * 10 + (rn c - 48)) 0 name)
      else PText [])"

function parse_template :: "string \<Rightarrow> piece list" where
  "parse_template [] = []"
| "parse_template (c # t) =
     (if c \<noteq> CHR ''$'' then PText [c] # parse_template t
      else case t of
        [] \<Rightarrow> [PText ''$'']
      | d # t' \<Rightarrow>
          if d = CHR ''$'' then PText ''$'' # parse_template t'
          else if d = CHR ''{'' then
            (let name = takeWhile word_char t'; rest = drop (length name) t'
             in if name \<noteq> [] \<and> rest \<noteq> [] \<and> hd rest = CHR ''}''
                then group_piece name # parse_template (tl rest)
                else PText ''$'' # parse_template t)
          else
            (let name = takeWhile word_char t
             in if name \<noteq> [] then group_piece name # parse_template (drop (length name) t)
                else PText ''$'' # parse_template t))"
  by pat_completeness auto
termination
  by (relation "measure length") auto

definition group_text :: "glyph list \<Rightarrow> (nat \<times> nat \<times> nat) list \<Rightarrow> nat \<Rightarrow> string" where
  "group_text gs cs k =
     (case map_of cs k of None \<Rightarrow> [] | Some (i, j) \<Rightarrow> bytes_of (take (j - i) (drop i gs)))"

definition expand :: "glyph list \<Rightarrow> nat \<Rightarrow> mstate \<Rightarrow> piece list \<Rightarrow> string" where
  "expand gs i st tmpl =
     concat (map (\<lambda>p. case p of PText t \<Rightarrow> t
       | PGroup k \<Rightarrow> group_text gs ((0, i, fst st) # snd (snd st)) k) tmpl)"

function replace_loop :: "re \<Rightarrow> piece list \<Rightarrow> glyph list \<Rightarrow> nat \<Rightarrow> nat \<Rightarrow> string \<Rightarrow> nat \<times> string" where
  \<comment> \<open>\<open>searchPos\<close>, \<open>lastMatchEnd\<close> and \<open>buf\<close> of \<open>Regexp.replaceAll\<close>\<close>
  "replace_loop r tmpl gs searchPos lastEnd buf =
     (if length gs < searchPos then (lastEnd, buf)
      else case search_re r searchPos (drop searchPos gs) of
        None \<Rightarrow> (lastEnd, buf)
      | Some (a0, st) \<Rightarrow>
          (let buf = buf @ bytes_of (take (a0 - lastEnd) (drop lastEnd gs));
               buf = (if lastEnd < fst st \<or> a0 = 0 then buf @ expand gs a0 st tmpl else buf)
           in replace_loop r tmpl gs (max (Suc searchPos) (fst st)) (fst st) buf))"
  by pat_completeness auto
termination
  by (relation "measure (\<lambda>(r, tmpl, gs, searchPos, lastEnd, buf). Suc (length gs) - searchPos)") auto

declare replace_loop.simps [simp del]

definition ReplaceAllString :: "re \<Rightarrow> string \<Rightarrow> string \<Rightarrow> string" where
  "ReplaceAllString r src repl =
     (let gs = glyphs src; (lastEnd, buf) = replace_loop r (parse_template repl) gs 0 0 []
      in buf @ bytes_of (drop lastEnd gs))"

section \<open>Anchored expressions\<close>

primrec anchored :: "re \<Rightarrow> bool" where
  \<comment> \<open>can only match at the start of the input\<close>
  "anchored ReEmpty = False"
| "anchored (ReLit ci c) = False"
| "anchored (ReClass ci neg rs) = False"
| "anchored ReBegin = True"
| "anchored ReEnd = False"
| "anchored (ReCat r1 r2) = anchored r1"
| "anchored (ReAlt r1 r2) = (anchored r1 \<and> anchored r2)"
| "anchored (ReStar greedy r) = False"
| "anchored (ReQuest greedy r) = False"
| "anchored (ReCap k r) = anchored r"

lemma anchored_no_match: "anchored r \<Longrightarrow> 0 < fst st \<Longrightarrow> match_re r st = []"
  by (induction r arbitrary: st) auto

lemma search_anchored: "anchored r \<Longrightarrow> 0 < i \<Longrightarrow> search_re r i s = None"
  by (induction r i s rule: search_re.induct) (simp_all add: anchored_no_match)

lemma MatchString_anchored:
  "anchored r \<Longrightarrow> MatchString r s \<longleftrightarrow> match_re r (0, glyphs s, []) \<noteq> []"
  by (cases "glyphs s") (auto simp: MatchString_def search_anchored split: list.splits)

definition literal_prefix :: "rune list \<Rightarrow> re" where
  \<comment> \<open>the expression \<open>^\<close> followed by literal runes\<close>
  "literal_prefix cs = foldl (\<lambda>r c. ReCat r (ReLit False c)) ReBegin cs"

lemma anchored_literal_prefix [simp]: "anchored (literal_prefix cs)"
  by (induction cs rule: rev_induct) (simp_all add: literal_prefix_def)

lemma match_literal_prefix:
  "match_re (literal_prefix cs) (0, gs, []) =
     (if prefix cs (map fst gs) then [(length cs, drop (length cs) gs, [])] else [])"
proof (induction cs rule: rev_induct)
  case Nil
  then show ?case by (simp add: literal_prefix_def)
next
  case (snoc c cs)
  have step: "match_re (literal_prefix (cs @ [c])) st =
      concat (map (match_re (ReLit False c)) (match_re (literal_prefix cs) st))" for st
    by (simp add: literal_prefix_def)
  show ?case
  proof (cases "prefix cs (map fst gs)")
    case False
    then show ?thesis
      using append_prefixD by (auto simp: step snoc.IH)
  next
    case True
    then obtain ys where ys: "map fst gs = cs @ ys" by (auto elim: prefixE)
    then have "map fst (drop (length cs) gs) = ys" by (metis append_eq_conv_conj drop_map)
    then show ?thesis
      using True ys by (cases "drop (length cs) gs")
        (auto simp: step snoc.IH lit_matches_def drop_Suc simp flip: drop_drop tl_drop)
  qed
qed

lemma three_byte_rune: "224 \<le> b \<Longrightarrow> cont (fst (first_cont b)) hi c \<Longrightarrow>
    128 \<le> (b - 224) * 4096 + (rn c - 128) * 64 + k"
  by (cases "b = 224") (auto simp: cont_def first_cont_def)

lemma four_byte_rune: "240 \<le> b \<Longrightarrow> cont (fst (first_cont b)) hi c \<Longrightarrow>
    128 \<le> (b - 240) * 262144 + (rn c - 128) * 4096 + k"
  by (cases "b = 240") (auto simp: cont_def first_cont_def)

lemma decode_rune_multibyte:
  assumes "128 \<le> rn d"
  shows "128 \<le> fst (decode_rune d t)"
proof -
  obtain lo hi where fc: "first_cont (rn d) = (lo, hi)" by fastforce
  have "194 \<le> rn d \<Longrightarrow> 128 \<le> (rn d - 192) * 64 + k" for k by simp
  moreover have "224 \<le> rn d \<Longrightarrow> cont lo hi c \<Longrightarrow> 128 \<le> (rn d - 224) * 4096 + (rn c - 128) * 64 + k"
    for c k using three_byte_rune [of "rn d" hi c k] fc by simp
  moreover have "240 \<le> rn d \<Longrightarrow> cont lo hi c \<Longrightarrow>
      128 \<le> (rn d - 240) * 262144 + (rn c - 128) * 4096 + k * 64 + j" for c k j
    using four_byte_rune [of "rn d" hi c "k * 64 + j"] fc by (simp add: add.assoc)
  ultimately show ?thesis
    using assms
    unfolding decode_rune_def Let_def fc prod.case
    by (simp only: not_less [symmetric] if_False if_True)
      (simp split: list.split add: RuneError_def)
qed

lemma prefix_glyphs:
  "\<forall>c\<in>set cs. rn c < 128 \<Longrightarrow> prefix (map of_char cs) (map fst (glyphs s)) \<longleftrightarrow> prefix cs s"
proof (induction cs arbitrary: s)
  case (Cons c cs)
  show ?case
  proof (cases s)
    case (Cons d t)
    show ?thesis
    proof (cases "rn d < 128")
      case True
      then show ?thesis using Cons Cons.IH [of t] Cons.prems by simp
    next
      case False
      then have "128 \<le> fst (decode_rune d t)" by (simp add: decode_rune_multibyte)
      then show ?thesis using Cons False Cons.prems
        by (auto simp: glyphs.simps(2) Let_def split: prod.splits)
    qed
  qed simp
qed simp

lemma MatchString_literal_prefix:
  "\<forall>c\<in>set cs. rn c < 128 \<Longrightarrow> MatchString (literal_prefix (map of_char cs)) s \<longleftrightarrow> prefix cs s"
  by (simp add: MatchString_anchored match_literal_prefix prefix_glyphs)

text \<open>Expressions that cannot match an input whose first rune is \<open>c\<close>.\<close>

primrec zero_width :: "re \<Rightarrow> bool" where
  "zero_width ReEmpty = True"
| "zero_width (ReLit ci c) = False"
| "zero_width (ReClass ci neg rs) = False"
| "zero_width ReBegin = True"
| "zero_width ReEnd = True"
| "zero_width (ReCat r1 r2) = (zero_width r1 \<and> zero_width r2)"
| "zero_width (ReAlt r1 r2) = (zero_width r1 \<and> zero_width r2)"
| "zero_width (ReStar greedy r) = False"
| "zero_width (ReQuest greedy r) = zero_width r"
| "zero_width (ReCap k r) = False"

primrec dead_at :: "rune \<Rightarrow> re \<Rightarrow> bool" where
  "dead_at c ReEmpty = False"
| "dead_at c (ReLit ci d) = (\<not> lit_matches ci d c)"
| "dead_at c (ReClass ci neg rs) = (\<not> class_matches ci neg rs c)"
| "dead_at c ReBegin = False"
| "dead_at c ReEnd = True"
| "dead_at c (ReCat r1 r2) = (dead_at c r1 \<or> zero_width r1 \<and> dead_at c r2)"
| "dead_at c (ReAlt r1 r2) = (dead_at c r1 \<and> dead_at c r2)"
| "dead_at c (ReStar greedy r) = False"
| "dead_at c (ReQuest greedy r) = False"
| "dead_at c (ReCap k r) = dead_at c r"

lemma zero_width_match: "zero_width r \<Longrightarrow> st' \<in> set (match_re r st) \<Longrightarrow> st' = st"
proof (induction r arbitrary: st st')
  case (ReCat r1 r2)
  then obtain st1 where "st1 \<in> set (match_re r1 st)" "st' \<in> set (match_re r2 st1)" by auto
  then show ?case using ReCat.IH(1) [of st1 st] ReCat.IH(2) [of st' st1] ReCat.prems(1) by simp
qed (auto split: if_splits)

lemma dead_at_match:
  "dead_at c r \<Longrightarrow> fst (snd st) = (c, b) # gs \<Longrightarrow> match_re r st = []"
proof (induction r arbitrary: st)
  case (ReCat r1 r2)
  show ?case
  proof (cases "dead_at c r1")
    case True
    then show ?thesis using ReCat by simp
  next
    case False
    then have "zero_width r1" "dead_at c r2" using ReCat.prems by auto
    then show ?thesis
      using ReCat.IH(2) ReCat.prems(2) by (auto dest!: zero_width_match)
  qed
qed (auto split: prod.splits)

end
