(* ===== verification/RegexpSyntax.thy ===== *)
theory RegexpSyntax
  imports Regexp
begin

text \<open>
  \<open>regexp.Compile\<close> and \<open>regexp.MustCompile\<close> (Perl syntax flags) on the syntax the gateway uses. The
  parser works on the runes of the pattern and carries the case flag and the number of groups; its
  fuel is twice the length of the pattern, one unit per call, and running out is \<open>Unsupported\<close>.
\<close>

section \<open>Errors and characters\<close>

datatype syntax_error =
    ErrInvalidEscape
  | ErrInvalidPerlOp
  | ErrMissingParen
  | ErrUnexpectedParen
  | ErrMissingBracket
  | ErrMissingRepeatArgument
  | ErrInvalidRepeatOp
  | ErrInvalidRepeatSize
  | ErrInvalidCharRange
  | ErrTrailingBackslash
  | ErrInvalidUTF8
  | Unsupported

definition ch :: "char \<Rightarrow> rune" where
  "ch c = of_char c"

definition digit_rune :: "rune \<Rightarrow> bool" where
  "digit_rune r \<longleftrightarrow> 48 \<le> r \<and> r \<le> 57"

definition alnum_rune :: "rune \<Rightarrow> bool" where
  "alnum_rune r \<longleftrightarrow> digit_rune r \<or> (65 \<le> r \<and> r \<le> 90) \<or> (97 \<le> r \<and> r \<le> 122)"

definition hex_rune :: "rune \<Rightarrow> nat option" where
  "hex_rune r =
     (if digit_rune r then Some (r - 48)
      else if 97 \<le> r \<and> r \<le> 102 then Some (r - 87)
      else if 65 \<le> r \<and> r \<le> 70 then Some (r - 55) else None)"

definition perl_class :: "rune \<Rightarrow> (rune \<times> rune) list option" where
  \<comment> \<open>\<open>\d\<close>, \<open>\s\<close>, \<open>\w\<close>\<close>
  "perl_class r =
     (if r = ch CHR ''d'' then Some [(48, 57)]
      else if r = ch CHR ''s'' then Some [(9, 10), (12, 13), (32, 32)]
      else if r = ch CHR ''w'' then Some [(48, 57), (65, 90), (95, 95), (97, 122)]
      else None)"

definition perl_class_neg :: "rune \<Rightarrow> (rune \<times> rune) list option" where
  "perl_class_neg r =
     (if r = ch CHR ''D'' then perl_class (ch CHR ''d'')
      else if r = ch CHR ''S'' then perl_class (ch CHR ''s'')
      else if r = ch CHR ''W'' then perl_class (ch CHR ''w'')
      else None)"

definition other_escape :: "rune \<Rightarrow> bool" where
  \<comment> \<open>escapes of the Perl flags that the model does not cover\<close>
  "other_escape r \<longleftrightarrow> list_ex (\<lambda>c. r = ch c) ''AbBCQzpP''"

fun parse_escape :: "rune list \<Rightarrow> syntax_error + (rune \<times> rune list)" where
  \<comment> \<open>after the backslash\<close>
  "parse_escape [] = Inl ErrTrailingBackslash"
| "parse_escape (c # t) =
     (if c < 128 \<and> \<not> alnum_rune c then Inr (c, t)
      else if c = ch CHR ''x'' then
        (case t of
           h # l # t' \<Rightarrow>
             if h = ch CHR ''{'' then Inl Unsupported
             else (case (hex_rune h, hex_rune l) of
                 (Some a, Some b) \<Rightarrow> Inr (a * 16 + b, t')
               | _ \<Rightarrow> Inl ErrInvalidEscape)
         | _ \<Rightarrow> Inl ErrInvalidEscape)
      else if c = ch CHR ''a'' then Inr (7, t)
      else if c = ch CHR ''f'' then Inr (12, t)
      else if c = ch CHR ''n'' then Inr (10, t)
      else if c = ch CHR ''r'' then Inr (13, t)
      else if c = ch CHR ''t'' then Inr (9, t)
      else if c = ch CHR ''v'' then Inr (11, t)
      else if digit_rune c then Inl Unsupported
      else Inl ErrInvalidEscape)"

section \<open>Character classes\<close>

fun parse_class_char :: "rune list \<Rightarrow> syntax_error + (rune \<times> rune list)" where
  "parse_class_char [] = Inl ErrMissingBracket"
| "parse_class_char (c # t) = (if c = ch CHR 0x5C then parse_escape t else Inr (c, t))"

primrec parse_class_items ::
  "nat \<Rightarrow> bool \<Rightarrow> bool \<Rightarrow> (rune \<times> rune) list \<Rightarrow> rune list \<Rightarrow> syntax_error + ((rune \<times> rune) list \<times> rune list)"
where
  "parse_class_items 0 ci first acc s = Inl Unsupported"
| "parse_class_items (Suc n) ci first acc s =
     (case s of [] \<Rightarrow> Inl ErrMissingBracket | c # t \<Rightarrow>
      if c = ch CHR '']'' \<and> \<not> first then Inr (acc, t)
      else if c = ch CHR ''['' \<and> t \<noteq> [] \<and> hd t = ch CHR '':'' then Inl Unsupported
      else if c = ch CHR 0x5C \<and> t \<noteq> [] \<and> perl_class (hd t) \<noteq> None
      then parse_class_items n ci False (acc @ the (perl_class (hd t))) (tl t)
      else if c = ch CHR 0x5C \<and> t \<noteq> [] \<and>
        (perl_class_neg (hd t) \<noteq> None \<or> hd t = ch CHR ''p'' \<or> hd t = ch CHR ''P'')
      then Inl Unsupported
      else (case parse_class_char s of
          Inl e \<Rightarrow> Inl e
        | Inr (lo, t1) \<Rightarrow>
            (case (if length t1 \<ge> 2 \<and> hd t1 = ch CHR ''-'' \<and> hd (tl t1) \<noteq> ch CHR '']''
                   then parse_class_char (tl t1) else Inr (lo, t1)) of
               Inl e \<Rightarrow> Inl e
             | Inr (hi, t2) \<Rightarrow>
                 if hi < lo then Inl ErrInvalidCharRange
                 else if ci \<and> 127 < hi then Inl Unsupported
                 else parse_class_items n ci False (acc @ [(lo, hi)]) t2)))"

definition parse_class :: "bool \<Rightarrow> rune list \<Rightarrow> syntax_error + (re \<times> rune list)" where
  \<comment> \<open>after the opening bracket\<close>
  "parse_class ci s =
     (let neg = (s \<noteq> [] \<and> hd s = ch CHR ''^''); t = (if neg then tl s else s)
      in case parse_class_items (Suc (length t)) ci True [] t of
           Inl e \<Rightarrow> Inl e
         | Inr (rs, rest) \<Rightarrow> Inr (ReClass ci neg rs, rest))"

section \<open>Repetition\<close>

definition parse_int :: "rune list \<Rightarrow> (nat \<times> rune list) option" where
  \<comment> \<open>no leading zeros\<close>
  "parse_int s =
     (let ds = takeWhile digit_rune s
      in if ds = [] \<or> (2 \<le> length ds \<and> hd ds = 48) then None
         else Some (foldl (\<lambda>n d. n * 10 + (d - 48)) 0 ds, drop (length ds) s))"

definition parse_range :: "rune list \<Rightarrow> (nat \<times> nat option \<times> rune list) option" where
  \<comment> \<open>after \<open>{\<close>: \<open>n}\<close>, \<open>n,}\<close> or \<open>n,m}\<close>\<close>
  "parse_range s =
     (case parse_int s of
        None \<Rightarrow> None
      | Some (n, t) \<Rightarrow>
          (case t of
             [] \<Rightarrow> None
           | c # t' \<Rightarrow>
               if c = ch CHR ''}'' then Some (n, Some n, t')
               else if c \<noteq> ch CHR '','' then None
               else (case t' of
                   [] \<Rightarrow> None
                 | d # t'' \<Rightarrow>
                     if d = ch CHR ''}'' then Some (n, None, t'')
                     else (case parse_int t' of
                         Some (m, e # u) \<Rightarrow> if e = ch CHR ''}'' then Some (n, Some m, u) else None
                       | _ \<Rightarrow> None))))"

definition re_cat :: "re \<Rightarrow> re \<Rightarrow> re" where
  "re_cat a b = (if a = ReEmpty then b else ReCat a b)"

fun re_copies :: "nat \<Rightarrow> re \<Rightarrow> re" where
  "re_copies 0 r = ReEmpty"
| "re_copies (Suc n) r = (if n = 0 then r else ReCat r (re_copies n r))"

fun re_optional :: "nat \<Rightarrow> bool \<Rightarrow> re \<Rightarrow> re" where
  \<comment> \<open>up to \<open>n\<close> more copies: \<open>(r(r)?)?\<close>\<close>
  "re_optional 0 greedy r = ReEmpty"
| "re_optional (Suc n) greedy r = ReQuest greedy (if n = 0 then r else ReCat r (re_optional n greedy r))"

definition re_repeat :: "nat \<Rightarrow> nat option \<Rightarrow> bool \<Rightarrow> re \<Rightarrow> re" where
  "re_repeat n m greedy r =
     (case m of
        None \<Rightarrow> re_cat (re_copies n r) (ReStar greedy r)
      | Some k \<Rightarrow> if k = n then re_copies n r
                  else re_cat (re_copies n r) (re_optional (k - n) greedy r))"

definition repeat_op :: "rune list \<Rightarrow> bool" where
  \<comment> \<open>does a repetition operator start here?\<close>
  "repeat_op s \<longleftrightarrow> s \<noteq> [] \<and>
     (hd s = ch CHR ''*'' \<or> hd s = ch CHR ''+'' \<or> hd s = ch CHR ''?'' \<or>
      (hd s = ch CHR ''{'' \<and> parse_range (tl s) \<noteq> None))"

definition parse_postfix :: "re \<Rightarrow> rune list \<Rightarrow> syntax_error + (re \<times> rune list)" where
  "parse_postfix r s =
     (if \<not> repeat_op s then Inr (r, s)
      else
        (let range = (if hd s = ch CHR ''*'' then Some (0, None, tl s)
               else if hd s = ch CHR ''+'' then Some (1, None, tl s)
               else if hd s = ch CHR ''?'' then Some (0, Some 1, tl s)
               else parse_range (tl s))
         in case range of
              None \<Rightarrow> Inl Unsupported
            | Some (n, m, t) \<Rightarrow>
                (let lazy = (t \<noteq> [] \<and> hd t = ch CHR ''?''); u = (if lazy then tl t else t)
                 in if 1000 < n \<or> (m \<noteq> None \<and> (1000 < the m \<or> the m < n)) then Inl ErrInvalidRepeatSize
                    else if repeat_op u then Inl ErrInvalidRepeatOp
                    else Inr (re_repeat n m (\<not> lazy) r, u))))"

section \<open>Groups, sequences and alternatives\<close>

datatype group_start =
    OpenCapture "rune list"
  | OpenGroup bool "rune list"
  | SetFlags bool "rune list"

fun parse_flags :: "bool \<Rightarrow> rune list \<Rightarrow> syntax_error + group_start" where
  \<comment> \<open>after \<open>(?\<close>; only the flag \<open>i\<close> is covered\<close>
  "parse_flags ci [] = Inl Unsupported"
| "parse_flags ci (c # t) =
     (if c = ch CHR ''i'' then parse_flags True t
      else if c = ch CHR '':'' then Inr (OpenGroup ci t)
      else if c = ch CHR '')'' then Inr (SetFlags ci t)
      else if list_ex (\<lambda>d. c = ch d) ''msU-<P'' then Inl Unsupported
      else Inl ErrInvalidPerlOp)"

definition parse_open :: "bool \<Rightarrow> rune list \<Rightarrow> syntax_error + group_start" where
  \<comment> \<open>after \<open>(\<close>\<close>
  "parse_open ci s =
     (case s of
        c # t \<Rightarrow> if c = ch CHR ''?'' then parse_flags ci t else Inr (OpenCapture s)
      | [] \<Rightarrow> Inr (OpenCapture s))"

definition parse_single :: "bool \<Rightarrow> rune \<Rightarrow> rune list \<Rightarrow> syntax_error + (re \<times> rune list)" where
  \<comment> \<open>one expression other than a group, starting with \<open>c\<close>\<close>
  "parse_single ci c t =
     (if c = ch CHR ''^'' then Inr (ReBegin, t)
      else if c = ch CHR ''$'' then Inr (ReEnd, t)
      else if c = ch CHR ''.'' then Inr (ReClass False True [(10, 10)], t)
      else if c = ch CHR ''['' then parse_class ci t
      else if c = ch CHR 0x5C then
        (case t of
           d # t' \<Rightarrow>
             if other_escape d then Inl Unsupported
             else if perl_class d \<noteq> None then Inr (ReClass ci False (the (perl_class d)), t')
             else if perl_class_neg d \<noteq> None then Inr (ReClass ci True (the (perl_class_neg d)), t')
             else (case parse_escape t of Inl e \<Rightarrow> Inl e | Inr (r, u) \<Rightarrow> Inr (ReLit ci r, u))
         | [] \<Rightarrow> Inl ErrTrailingBackslash)
      else if ci \<and> 127 < c then Inl Unsupported
      else Inr (ReLit ci c, t))"

datatype parse_mode = AltMode | SeqMode re \<comment> \<open>with the sequence parsed so far\<close>

primrec parse_re ::
  "nat \<Rightarrow> parse_mode \<Rightarrow> bool \<Rightarrow> nat \<Rightarrow> rune list \<Rightarrow> syntax_error + (re \<times> bool \<times> nat \<times> rune list)"
where
  "parse_re 0 mode ci k s = Inl Unsupported"
| "parse_re (Suc n) mode ci k s =
     (case mode of
        AltMode \<Rightarrow>
          (case parse_re n (SeqMode ReEmpty) ci k s of
             Inl e \<Rightarrow> Inl e
           | Inr (r, ci', k', rest) \<Rightarrow>
               if rest = [] \<or> hd rest \<noteq> ch CHR ''|'' then Inr (r, ci', k', rest)
               else (case parse_re n AltMode ci' k' (tl rest) of
                   Inl e \<Rightarrow> Inl e
                 | Inr (r2, ci'', k'', rest') \<Rightarrow> Inr (ReAlt r r2, ci'', k'', rest')))
      | SeqMode acc \<Rightarrow>
          (case s of
             [] \<Rightarrow> Inr (acc, ci, k, [])
           | c # t \<Rightarrow>
               if c = ch CHR ''|'' \<or> c = ch CHR '')'' then Inr (acc, ci, k, s)
               else if repeat_op s then Inl ErrMissingRepeatArgument
               else if c = ch CHR ''('' then
                 (case parse_open ci t of
                    Inl e \<Rightarrow> Inl e
                  | Inr (SetFlags ci' u) \<Rightarrow> parse_re n (SeqMode acc) ci' k u
                  | Inr (OpenGroup ci' u) \<Rightarrow>
                      (case parse_re n AltMode ci' k u of
                         Inl e \<Rightarrow> Inl e
                       | Inr (r, _, k', rest) \<Rightarrow>
                           if rest = [] then Inl ErrMissingParen
                           else (case parse_postfix r (tl rest) of
                               Inl e \<Rightarrow> Inl e
                             | Inr (r', w) \<Rightarrow> parse_re n (SeqMode (re_cat acc r')) ci k' w))
                  | Inr (OpenCapture u) \<Rightarrow>
                      (case parse_re n AltMode ci (Suc k) u of
                         Inl e \<Rightarrow> Inl e
                       | Inr (r, _, k', rest) \<Rightarrow>
                           if rest = [] then Inl ErrMissingParen
                           else (case parse_postfix (ReCap (Suc k) r) (tl rest) of
                               Inl e \<Rightarrow> Inl e
                             | Inr (r', w) \<Rightarrow> parse_re n (SeqMode (re_cat acc r')) ci k' w)))
               else (case parse_single ci c t of
                   Inl e \<Rightarrow> Inl e
                 | Inr (r, u) \<Rightarrow>
                     (case parse_postfix r u of
                        Inl e \<Rightarrow> Inl e
                      | Inr (r', v) \<Rightarrow> parse_re n (SeqMode (re_cat acc r')) ci k v))))"

definition Compile :: "string \<Rightarrow> syntax_error + re" where
  "Compile pattern =
     (let gs = glyphs pattern; s = map fst gs in
      if list_ex (\<lambda>(r, b). r = RuneError \<and> length b = 1) gs then Inl ErrInvalidUTF8
      else case parse_re (2 * length s + 2) AltMode False 0 s of
        Inl e \<Rightarrow> Inl e
      | Inr (r, _, _, rest) \<Rightarrow> if rest = [] then Inr r else Inl ErrUnexpectedParen)"

definition MustCompile :: "string \<Rightarrow> re go" where
  "MustCompile pattern =
     (case Compile pattern of Inl e \<Rightarrow> Inl (PanicValue ''regexp: Compile'') | Inr r \<Rightarrow> Inr r)"

end
