(* ===== verification/RegexpScan.thy ===== *)
theory RegexpScan
  imports RegexpSyntax
begin

text \<open>
  What the matcher and \<open>ReplaceAllString\<close> compute on the shapes of expression the gateway uses: a
  literal, a class, a greedy star of a class, and the deletion of all matches of an expression whose
  match at a position is given by a length function.
\<close>

section \<open>Searching\<close>

lemma all_le_Suc: "(\<forall>k\<le>Suc n. P k) \<longleftrightarrow> P 0 \<and> (\<forall>k\<le>n. P (Suc k))"
  by (metis Suc_le_mono le0 not0_implies_Suc)

lemma search_none_all:
  "search_re r i s = None \<longleftrightarrow> (\<forall>k\<le>length s. match_re r (i + k, drop k s, []) = [])"
proof (induction r i s rule: search_re.induct)
  case (1 r i)
  then show ?case by (simp split: list.splits)
next
  case (2 r i g s)
  have "(\<forall>k\<le>length (g # s). match_re r (i + k, drop k (g # s), []) = []) \<longleftrightarrow>
      match_re r (i, g # s, []) = [] \<and> (\<forall>k\<le>length s. match_re r (Suc i + k, drop k s, []) = [])"
    by (simp add: all_le_Suc)
  then show ?case using 2 by (auto split: list.splits)
qed

lemma MatchString_iff:
  "MatchString r s \<longleftrightarrow> (\<exists>k\<le>length (glyphs s). match_re r (k, drop k (glyphs s), []) \<noteq> [])"
  using search_none_all [of r 0 "glyphs s"] by (auto simp: MatchString_def)

lemma replace_no_match:
  assumes "\<not> MatchString r s"
  shows "ReplaceAllString r s t = s"
proof -
  have "search_re r 0 (glyphs s) = None"
    using assms by (cases "search_re r 0 (glyphs s)") (auto simp: MatchString_def)
  then have "replace_loop r (parse_template t) (glyphs s) 0 0 [] = (0, [])"
    by (subst replace_loop.simps) simp
  then show ?thesis by (simp add: ReplaceAllString_def Let_def)
qed

lemma replace_whole:
  assumes "match_re r (0, glyphs s, []) = (length (glyphs s), [], cs) # ys"
    and "match_re r (length (glyphs s), [], []) = []" "glyphs s \<noteq> []"
  shows "ReplaceAllString r s t = expand (glyphs s) 0 (length (glyphs s), [], cs) (parse_template t)"
proof -
  let ?gs = "glyphs s"
  have found: "search_re r 0 ?gs = Some (0, length ?gs, [], cs)"
    using assms(1,3) by (cases ?gs) simp_all
  have rest: "replace_loop r tmpl ?gs (length ?gs) (length ?gs) buf = (length ?gs, buf)" for tmpl buf
    using assms(2) by (subst replace_loop.simps) simp
  have "replace_loop r tmpl ?gs 0 0 [] = (length ?gs, expand ?gs 0 (length ?gs, [], cs) tmpl)" for tmpl
    using assms(3) by (subst replace_loop.simps) (simp add: found rest max_def Let_def Suc_le_eq)
  then show ?thesis by (simp add: ReplaceAllString_def Let_def)
qed

section \<open>A greedy star of a class\<close>

definition span :: "(rune \<Rightarrow> bool) \<Rightarrow> glyph list \<Rightarrow> nat" where
  \<comment> \<open>how many leading runes satisfy the predicate\<close>
  "span P s = length (takeWhile (\<lambda>g. P (fst g)) s)"

lemma span_simps [simp]:
  "span P [] = 0" "span P (g # s) = (if P (fst g) then Suc (span P s) else 0)"
  by (simp_all add: span_def)

lemma span_le: "span P s \<le> length s"
  by (simp add: span_def length_takeWhile_le)

lemma span_all: "span P s = length s \<longleftrightarrow> (\<forall>g\<in>set s. P (fst g))"
proof (induction s)
  case (Cons g s)
  then show ?case using span_le [of P s] by auto
qed simp

lemma iter_star_class:
  assumes step: "\<And>j u cs. f (j, u, cs) = (case u of g # u' \<Rightarrow> if P (fst g) then [(Suc j, u', cs)] else [] | [] \<Rightarrow> [])"
    and "length s \<le> n"
  shows "iter_star n True f (i, s, cs) = map (\<lambda>k. (i + k, drop k s, cs)) (rev [0..<Suc (span P s)])"
  using assms(2)
proof (induction n arbitrary: i s)
  case 0
  then show ?case by simp
next
  case (Suc n)
  show ?case
  proof (cases s)
    case Nil
    then show ?thesis by (simp add: step)
  next
    case (Cons g t)
    have shift: "rev [0..<Suc (Suc k)] = map Suc (rev [0..<Suc k]) @ [0]" for k
      by (subst upt_conv_Cons) (simp_all add: map_Suc_upt del: upt_Suc flip: rev_map)
    show ?thesis
    proof (cases "P (fst g)")
      case False
      then show ?thesis by (simp add: Cons step)
    next
      case True
      have "iter_star n True f (Suc i, t, cs) = map (\<lambda>k. (Suc i + k, drop k t, cs)) (rev [0..<Suc (span P t)])"
        using Suc Cons by simp
      then show ?thesis using True by (simp only: Cons span_simps shift if_True) (simp add: step comp_def)
    qed
  qed
qed

lemma match_star_class:
  "match_re (ReStar True (ReClass ci neg rs)) (i, s, cs) =
    map (\<lambda>k. (i + k, drop k s, cs)) (rev [0..<Suc (span (class_matches ci neg rs) s)])"
  by (simp add: iter_star_class [where P = "class_matches ci neg rs"] split: list.split del: upt_Suc)

text \<open>When what follows the star starts with a rune the class excludes, only the longest run counts.\<close>

lemma star_then:
  assumes excl: "\<And>k. k < span P s \<Longrightarrow> F (i + k, drop k s, cs) = []"
  shows "concat (map F (map (\<lambda>k. (i + k, drop k s, cs)) (rev [0..<Suc (span P s)]))) =
    F (i + span P s, drop (span P s) s, cs)"
proof -
  have "concat (map F (map (\<lambda>k. (i + k, drop k s, cs)) (rev [0..<span P s]))) = []"
    using excl by simp
  then show ?thesis by simp
qed

section \<open>Deleting all matches\<close>

definition matches_by :: "re \<Rightarrow> (glyph list \<Rightarrow> nat option) \<Rightarrow> bool" where
  \<comment> \<open>the match at a position is non-empty and its length depends on the rest of the input only\<close>
  "matches_by r m \<longleftrightarrow> (\<forall>i s. case m s of
       None \<Rightarrow> match_re r (i, s, []) = []
     | Some n \<Rightarrow> 0 < n \<and> n \<le> length s \<and> (\<exists>cs more. match_re r (i, s, []) = (i + n, drop n s, cs) # more))"

function strip :: "(glyph list \<Rightarrow> nat option) \<Rightarrow> glyph list \<Rightarrow> glyph list" where
  "strip m [] = []"
| "strip m (g # s) = (case m (g # s) of None \<Rightarrow> g # strip m s | Some n \<Rightarrow> strip m (drop (n - 1) s))"
  by pat_completeness auto
termination
  by (relation "measure (\<lambda>(m, s). length s)") auto

lemma matches_byD:
  assumes "matches_by r m"
  shows "m s = None \<Longrightarrow> match_re r (i, s, []) = []"
    and "m s = Some n \<Longrightarrow> 0 < n \<and> n \<le> length s \<and> (\<exists>cs more. match_re r (i, s, []) = (i + n, drop n s, cs) # more)"
proof -
  have by_case: "case m s of None \<Rightarrow> match_re r (i, s, []) = []
     | Some n \<Rightarrow> 0 < n \<and> n \<le> length s \<and> (\<exists>cs more. match_re r (i, s, []) = (i + n, drop n s, cs) # more)"
    using assms unfolding matches_by_def by blast
  show "m s = None \<Longrightarrow> match_re r (i, s, []) = []" using by_case by simp
  show "m s = Some n \<Longrightarrow> 0 < n \<and> n \<le> length s \<and> (\<exists>cs more. match_re r (i, s, []) = (i + n, drop n s, cs) # more)"
    using by_case by simp
qed

lemma matches_by_Nil:
  assumes "matches_by r m"
  shows "m [] = None"
proof (cases "m []")
  case (Some n)
  then show ?thesis using matches_byD(2) [OF assms Some, of 0] by auto
qed simp

lemma strip_step:
  assumes "matches_by r m" "m s = Some n"
  shows "strip m s = strip m (drop n s)"
proof -
  have n: "0 < n" "n \<le> length s" using matches_byD(2) [OF assms] by auto
  then obtain g t where s: "s = g # t" by (cases s) auto
  then show ?thesis using assms(2) n by (cases n) simp_all
qed

lemma search_by:
  assumes mb: "matches_by r m"
  shows "(search_re r i s = None \<longrightarrow> strip m s = s) \<and>
    (\<forall>a st. search_re r i s = Some (a, st) \<longrightarrow>
      (\<exists>k n. a = i + k \<and> k + n \<le> length s \<and> 0 < n \<and> fst st = i + k + n \<and>
        strip m s = take k s @ strip m (drop (k + n) s)))"
  using mb
proof (induction r i s rule: search_re.induct)
  case (1 r i)
  then show ?case using matches_by_Nil [of r m] matches_byD(1) [of r m "[]" i] by simp
next
  case (2 r i g s)
  show ?case
  proof (cases "m (g # s)")
    case None
    then have none: "match_re r (i, g # s, []) = []" using matches_byD(1) [OF 2(2)] by blast
    have IH: "search_re r (Suc i) s = None \<Longrightarrow> strip m s = s"
      "search_re r (Suc i) s = Some (a, st) \<Longrightarrow> \<exists>k n. a = Suc i + k \<and> k + n \<le> length s \<and> 0 < n \<and>
        fst st = Suc i + k + n \<and> strip m s = take k s @ strip m (drop (k + n) s)" for a st
      using 2(1) [OF none 2(2)] by blast+
    show ?thesis
    proof (intro conjI impI allI)
      assume "search_re r i (g # s) = None"
      then show "strip m (g # s) = g # s" using IH(1) None none by simp
    next
      fix a st
      assume "search_re r i (g # s) = Some (a, st)"
      then obtain k n where "a = Suc i + k" "k + n \<le> length s" "0 < n" "fst st = Suc i + k + n"
        "strip m s = take k s @ strip m (drop (k + n) s)"
        using IH(2) none by auto
      then show "\<exists>k n. a = i + k \<and> k + n \<le> length (g # s) \<and> 0 < n \<and> fst st = i + k + n \<and>
          strip m (g # s) = take k (g # s) @ strip m (drop (k + n) (g # s))"
        using None by (intro exI [of _ "Suc k"] exI [of _ n]) simp
    qed
  next
    case (Some n)
    then obtain cs more where n: "0 < n" "n \<le> length (g # s)"
      "match_re r (i, g # s, []) = (i + n, drop n (g # s), cs) # more"
      using matches_byD(2) [OF 2(2)] by blast
    show ?thesis
    proof (intro conjI impI allI)
      assume "search_re r i (g # s) = None"
      then show "strip m (g # s) = g # s" using n by simp
    next
      fix a st
      assume "search_re r i (g # s) = Some (a, st)"
      then have "a = i" "fst st = i + n" using n(3) by auto
      then show "\<exists>k n. a = i + k \<and> k + n \<le> length (g # s) \<and> 0 < n \<and> fst st = i + k + n \<and>
          strip m (g # s) = take k (g # s) @ strip m (drop (k + n) (g # s))"
        using n strip_step [OF 2(2) Some] by (intro exI [of _ 0] exI [of _ n]) simp
    qed
  qed
qed

lemma replace_loop_by:
  assumes mb: "matches_by r m"
  shows "i \<le> length gs \<Longrightarrow> replace_loop r [] gs i i buf = (e, out) \<Longrightarrow>
    out @ bytes_of (drop e gs) = buf @ bytes_of (strip m (drop i gs))"
proof (induction "length gs - i" arbitrary: i buf rule: less_induct)
  case less
  show ?case
  proof (cases "search_re r i (drop i gs)")
    case None
    then have "strip m (drop i gs) = drop i gs" using search_by [OF mb] by blast
    moreover have "(e, out) = (i, buf)" using less(3) None less(2) by (subst (asm) replace_loop.simps) simp
    ultimately show ?thesis by simp
  next
    case (Some hit)
    obtain a st where hit: "hit = (a, st)" by (cases hit)
    then obtain k n where k: "a = i + k" "k + n \<le> length (drop i gs)" "0 < n" "fst st = i + k + n"
      "strip m (drop i gs) = take k (drop i gs) @ strip m (drop (k + n) (drop i gs))"
      using search_by [OF mb] Some by blast
    have run: "replace_loop r [] gs (i + k + n) (i + k + n) (buf @ bytes_of (take k (drop i gs))) = (e, out)"
      using less(3) Some hit k less(2)
      by (subst (asm) replace_loop.simps) (simp add: expand_def Let_def max_def)
    have "out @ bytes_of (drop e gs) =
        (buf @ bytes_of (take k (drop i gs))) @ bytes_of (strip m (drop (i + k + n) gs))"
      using k less(2) by (intro less(1) [OF _ _ run]) simp_all
    then show ?thesis using k by (simp add: add.commute add.left_commute)
  qed
qed

lemma delete_all:
  "matches_by r m \<Longrightarrow> ReplaceAllString r s [] = bytes_of (strip m (glyphs s))"
  using replace_loop_by [of r m 0 "glyphs s" "[]"]
  by (auto simp: ReplaceAllString_def Let_def split: prod.split)

lemma MatchString_by:
  assumes "matches_by r m"
  shows "MatchString r s \<longleftrightarrow> (\<exists>k\<le>length (glyphs s). m (drop k (glyphs s)) \<noteq> None)"
proof -
  have "match_re r (k, t, []) \<noteq> [] \<longleftrightarrow> m t \<noteq> None" for k t
  proof (cases "m t")
    case None
    then show ?thesis using matches_byD(1) [OF assms None] by simp
  next
    case (Some n)
    then obtain cs more where "match_re r (k, t, []) = (k + n, drop n t, cs) # more"
      using matches_byD(2) [OF assms Some] by blast
    then show ?thesis using Some by simp
  qed
  then show ?thesis by (simp add: MatchString_iff)
qed

section \<open>Expressions of a fixed shape\<close>

primrec shape :: "re \<Rightarrow> (rune \<Rightarrow> bool) list option" where
  \<comment> \<open>a sequence of literals and classes, as the predicates its runes must satisfy\<close>
  "shape ReEmpty = None"
| "shape (ReLit ci c) = Some [lit_matches ci c]"
| "shape (ReClass ci neg rs) = Some [class_matches ci neg rs]"
| "shape ReBegin = None"
| "shape ReEnd = None"
| "shape (ReCat r1 r2) =
     (case (shape r1, shape r2) of (Some ps, Some qs) \<Rightarrow> Some (ps @ qs) | _ \<Rightarrow> None)"
| "shape (ReAlt r1 r2) = None"
| "shape (ReStar greedy r) = None"
| "shape (ReQuest greedy r) = None"
| "shape (ReCap k r) = None"

fun fits :: "(rune \<Rightarrow> bool) list \<Rightarrow> glyph list \<Rightarrow> bool" where
  "fits [] s \<longleftrightarrow> True"
| "fits (P # ps) [] \<longleftrightarrow> False"
| "fits (P # ps) (g # s) \<longleftrightarrow> P (fst g) \<and> fits ps s"

lemma fits_append: "fits (ps @ qs) s \<longleftrightarrow> fits ps s \<and> fits qs (drop (length ps) s)"
  by (induction ps s rule: fits.induct) auto

lemma fits_length: "fits ps s \<Longrightarrow> length ps \<le> length s"
  by (induction ps s rule: fits.induct) auto

lemma match_shape:
  "shape r = Some ps \<Longrightarrow>
    match_re r (i, s, cs) = (if fits ps s then [(i + length ps, drop (length ps) s, cs)] else [])"
proof (induction r arbitrary: i s ps)
  case (ReCat r1 r2)
  then obtain ps1 ps2 where "shape r1 = Some ps1" "shape r2 = Some ps2" "ps = ps1 @ ps2"
    by (auto split: option.splits)
  then show ?case using ReCat.IH by (simp add: fits_append add.commute add.left_commute)
qed (auto split: list.split)

lemma matches_by_shape:
  assumes "shape r = Some ps" "ps \<noteq> []"
  shows "matches_by r (\<lambda>s. if fits ps s then Some (length ps) else None)"
  using assms by (simp add: matches_by_def match_shape fits_length)

end
