(* ===== verification/Risk.thy ===== *)
theory Risk
  imports RegexpSyntax "HOL-Library.Code_Target_Nat"
begin

text \<open>
  \<open>internal/risk/engine.go\<close>: the command-risk rules, their loading from JSON, the first-match check
  and the messages. JSON is modelled at the level of its syntax tree: \<open>None\<close> is a text that
  \<open>encoding/json\<close> cannot parse, and decoding into the Go structs follows its rules (exact or
  case-insensitive keys, \<open>null\<close> leaves a field as it is, a value of another type is an error).
  The lock \<open>mu\<close> makes each operation atomic, as each definition here is.
\<close>

section \<open>Data\<close>

type_synonym RiskLevel = string
type_synonym Action = string

definition RiskLevelLow :: RiskLevel where "RiskLevelLow = ''low''"
definition RiskLevelMedium :: RiskLevel where "RiskLevelMedium = ''medium''"
definition RiskLevelHigh :: RiskLevel where "RiskLevelHigh = ''high''"

definition ActionAllow :: Action where "ActionAllow = ''allow''"
definition ActionBlock :: Action where "ActionBlock = ''block''"
definition ActionConfirm :: Action where "ActionConfirm = ''confirm''"

lemmas risk_consts = RiskLevelLow_def RiskLevelMedium_def RiskLevelHigh_def
  ActionAllow_def ActionBlock_def ActionConfirm_def

record Rule =
  R_ID :: string
  R_Pattern :: re
  R_Level :: RiskLevel
  R_Action :: Action
  R_Message :: string

record RuleConfig =
  C_ID :: string
  C_Pattern :: string
  C_Level :: RiskLevel
  C_Action :: Action
  C_Message :: string

record Engine =
  E_rules :: "Rule list"

definition NewEngine :: Engine where
  "NewEngine = \<lparr>E_rules = []\<rparr>"

section \<open>JSON\<close>

datatype json =
    JNull
  | JBool bool
  | JNumber string
  | JString string
  | JArray "json list"
  | JObject "(string \<times> json) list"

datatype risk_error =
    ErrReadFile string
  | ErrParseJSON
  | ErrCompilePattern string syntax_error

definition zero_config :: RuleConfig where
  "zero_config = \<lparr>C_ID = [], C_Pattern = [], C_Level = [], C_Action = [], C_Message = []\<rparr>"

definition same_key :: "string \<Rightarrow> string \<Rightarrow> bool" where
  \<comment> \<open>keys are compared up to case\<close>
  "same_key a b \<longleftrightarrow> map (canon \<circ> fst) (glyphs a) = map (canon \<circ> fst) (glyphs b)"

definition decode_string :: "json \<Rightarrow> string \<Rightarrow> string \<times> bool" where
  \<comment> \<open>the new value of a string field, and whether the value had the right type\<close>
  "decode_string j old =
     (case j of JString s \<Rightarrow> (s, True) | JNull \<Rightarrow> (old, True) | _ \<Rightarrow> (old, False))"

definition decode_field :: "string \<times> json \<Rightarrow> RuleConfig \<times> bool \<Rightarrow> RuleConfig \<times> bool" where
  "decode_field kv acc =
     (case (kv, acc) of ((k, j), (c, ok)) \<Rightarrow>
        if same_key k ''id'' then
          (let (v, good) = decode_string j (C_ID c) in (c\<lparr>C_ID := v\<rparr>, ok \<and> good))
        else if same_key k ''pattern'' then
          (let (v, good) = decode_string j (C_Pattern c) in (c\<lparr>C_Pattern := v\<rparr>, ok \<and> good))
        else if same_key k ''level'' then
          (let (v, good) = decode_string j (C_Level c) in (c\<lparr>C_Level := v\<rparr>, ok \<and> good))
        else if same_key k ''action'' then
          (let (v, good) = decode_string j (C_Action c) in (c\<lparr>C_Action := v\<rparr>, ok \<and> good))
        else if same_key k ''message'' then
          (let (v, good) = decode_string j (C_Message c) in (c\<lparr>C_Message := v\<rparr>, ok \<and> good))
        else (c, ok))"

definition decode_config :: "json \<Rightarrow> RuleConfig \<times> bool" where
  "decode_config j =
     (case j of
        JObject kvs \<Rightarrow> List.fold decode_field kvs (zero_config, True)
      | JNull \<Rightarrow> (zero_config, True)
      | _ \<Rightarrow> (zero_config, False))"

definition decode_configs :: "json \<Rightarrow> RuleConfig list \<times> bool" where
  \<comment> \<open>into a \<open>[]RuleConfig\<close>\<close>
  "decode_configs j =
     (case j of
        JArray js \<Rightarrow> (map (fst \<circ> decode_config) js, list_all (snd \<circ> decode_config) js)
      | JNull \<Rightarrow> ([], True)
      | _ \<Rightarrow> ([], False))"

definition decode_wrapper :: "json \<Rightarrow> RuleConfig list \<times> bool" where
  \<comment> \<open>into a \<open>RulesFileWrapper\<close>, whose only field is \<open>risk_rules\<close>\<close>
  "decode_wrapper j =
     (case j of
        JObject kvs \<Rightarrow>
          List.fold (\<lambda>(k, v) (cs, ok). if same_key k ''risk_rules''
              then (let (cs', good) = decode_configs v in (cs', ok \<and> good)) else (cs, ok))
            kvs ([], True)
      | JNull \<Rightarrow> ([], True)
      | _ \<Rightarrow> ([], False))"

definition encode_config :: "RuleConfig \<Rightarrow> json" where
  \<comment> \<open>\<open>json.Marshal\<close> of a \<open>RuleConfig\<close>\<close>
  "encode_config c = JObject
     [(''id'', JString (C_ID c)), (''pattern'', JString (C_Pattern c)),
      (''level'', JString (C_Level c)), (''action'', JString (C_Action c)),
      (''message'', JString (C_Message c))]"

section \<open>Loading\<close>

fun compile_rules :: "RuleConfig list \<Rightarrow> risk_error + Rule list" where
  \<comment> \<open>the loop over \<open>configs\<close>: the first pattern that does not compile ends it\<close>
  "compile_rules [] = Inr []"
| "compile_rules (cfg # cfgs) =
     (case Compile (C_Pattern cfg) of
        Inl err \<Rightarrow> Inl (ErrCompilePattern (C_ID cfg) err)
      | Inr r \<Rightarrow>
          (case compile_rules cfgs of
             Inl e \<Rightarrow> Inl e
           | Inr rules \<Rightarrow> Inr (\<lparr>R_ID = C_ID cfg, R_Pattern = r, R_Level = C_Level cfg,
               R_Action = C_Action cfg, R_Message = C_Message cfg\<rparr> # rules)))"

definition parse_configs :: "json option \<Rightarrow> risk_error + RuleConfig list" where
  "parse_configs data =
     (case data of
        None \<Rightarrow> Inl ErrParseJSON
      | Some j \<Rightarrow>
          (if snd (decode_wrapper j) \<and> 0 < length (fst (decode_wrapper j))
           then Inr (fst (decode_wrapper j))
           else if snd (decode_configs j) then Inr (fst (decode_configs j))
           else Inl ErrParseJSON))"

definition LoadRulesFromJSON :: "json option \<Rightarrow> Engine \<Rightarrow> Engine \<times> risk_error option" where
  "LoadRulesFromJSON data e =
     (case parse_configs data of
        Inl err \<Rightarrow> (e, Some err)
      | Inr configs \<Rightarrow>
          (case compile_rules configs of
             Inl err \<Rightarrow> (e, Some err)
           | Inr rules \<Rightarrow> (e\<lparr>E_rules := rules\<rparr>, None)))"

definition LoadRules :: "(string \<Rightarrow> string + json option) \<Rightarrow> string \<Rightarrow> Engine \<Rightarrow>
    Engine \<times> risk_error option" where
  \<comment> \<open>\<open>ReadFile\<close> is the file system: the error of \<open>os.ReadFile\<close>, or the content\<close>
  "LoadRules ReadFile path e =
     (case ReadFile path of
        Inl err \<Rightarrow> (e, Some (ErrReadFile err))
      | Inr data \<Rightarrow> LoadRulesFromJSON data e)"

section \<open>Checking\<close>

definition Check :: "Engine \<Rightarrow> string \<Rightarrow> Rule option \<times> RiskLevel \<times> Action" where
  "Check e command =
     (case List.find (\<lambda>rule. MatchString (R_Pattern rule) command) (E_rules e) of
        Some rule \<Rightarrow> (Some rule, R_Level rule, R_Action rule)
      | None \<Rightarrow> (None, RiskLevelLow, ActionAllow))"

definition CheckAndBlock :: "Engine \<Rightarrow> string \<Rightarrow> bool \<times> Rule option" where
  "CheckAndBlock e command =
     (case Check e command of (rule, _, action) \<Rightarrow>
        if action = ActionBlock then (True, rule) else (False, None))"

definition CheckAndConfirm :: "Engine \<Rightarrow> string \<Rightarrow> bool \<times> Rule option" where
  "CheckAndConfirm e command =
     (case Check e command of (rule, _, action) \<Rightarrow>
        if action = ActionConfirm then (True, rule) else (False, None))"

definition GetBlockMessage :: "Rule option \<Rightarrow> string" where
  "GetBlockMessage rule =
     (case rule of None \<Rightarrow> []
      | Some r \<Rightarrow> [CHR 0x0D, CHR 0x0A, CHR 0x1B] @ ''[31m[BLOCKED]'' @ [CHR 0x1B] @ ''[0m '' @
          R_Message r @ [CHR 0x0D, CHR 0x0A])"

definition GetConfirmMessage :: "Rule option \<Rightarrow> string" where
  "GetConfirmMessage rule =
     (case rule of None \<Rightarrow> []
      | Some r \<Rightarrow> [CHR 0x0D, CHR 0x0A, CHR 0x1B] @ ''[33m[CONFIRM]'' @ [CHR 0x1B] @ ''[0m '' @
          R_Message r @ [CHR 0x0D, CHR 0x0A])"

section \<open>The default rules\<close>

definition utf8 :: "nat list \<Rightarrow> string" where
  \<comment> \<open>a literal of the source outside ASCII, as its UTF-8 bytes\<close>
  "utf8 bs = map char_of bs"

definition msg_rm_root :: string where
  "msg_rm_root =
     utf8 [0xE9, 0xAB, 0x98, 0xE5, 0x8D, 0xB1, 0xE6, 0x93, 0x8D, 0xE4, 0xBD, 0x9C, 0xE6, 0x8B,
     0xA6, 0xE6, 0x88, 0xAA, 0xEF, 0xBC, 0x9A, 0xE7, 0xA6, 0x81, 0xE6, 0xAD, 0xA2, 0xE5, 0x88,
     0xA0, 0xE9, 0x99, 0xA4, 0xE6, 0xA0, 0xB9, 0xE7, 0x9B, 0xAE, 0xE5, 0xBD, 0x95, 0xE6, 0x88,
     0x96, 0xE5, 0x85, 0xB3, 0xE9, 0x94, 0xAE, 0xE7, 0xB3, 0xBB, 0xE7, 0xBB, 0x9F, 0xE7, 0x9B,
     0xAE, 0xE5, 0xBD, 0x95]"

definition msg_service :: string where
  "msg_service =
     utf8 [0xE6, 0x82, 0xA8, 0xE6, 0xAD, 0xA3, 0xE5, 0x9C, 0xA8, 0xE5, 0xB0, 0x9D, 0xE8, 0xAF,
     0x95, 0xE5, 0x81, 0x9C, 0xE6, 0xAD, 0xA2, 0xE6, 0x88, 0x96, 0xE9, 0x87, 0x8D, 0xE5, 0x90,
     0xAF, 0xE5, 0x9F, 0xBA, 0xE7, 0xA1, 0x80, 0xE6, 0x9C, 0x8D, 0xE5, 0x8A, 0xA1, 0xEF, 0xBC,
     0x8C, 0xE8, 0xAF, 0xB7, 0xE7, 0xA1, 0xAE, 0xE8, 0xAE, 0xA4, 0xE8, 0xAF, 0xA5, 0xE6, 0x93,
     0x8D, 0xE4, 0xBD, 0x9C, 0xE4, 0xB8, 0x8D, 0xE5, 0xBD, 0xB1, 0xE5, 0x93, 0x8D, 0xE4, 0xB8,
     0x9A, 0xE5, 0x8A, 0xA1]"

definition msg_mkfs :: string where
  "msg_mkfs =
     utf8 [0xE9, 0xAB, 0x98, 0xE5, 0x8D, 0xB1, 0xE6, 0x93, 0x8D, 0xE4, 0xBD, 0x9C, 0xE6, 0x8B,
     0xA6, 0xE6, 0x88, 0xAA, 0xEF, 0xBC, 0x9A, 0xE7, 0xA6, 0x81, 0xE6, 0xAD, 0xA2, 0xE6, 0x89,
     0xA7, 0xE8, 0xA1, 0x8C, 0x20, 0x6D, 0x6B, 0x66, 0x73]"

definition msg_reboot :: string where
  "msg_reboot =
     utf8 [0xE7, 0xB3, 0xBB, 0xE7, 0xBB, 0x9F, 0xE5, 0xB0, 0x86, 0xE9, 0x87, 0x8D, 0xE5, 0x90,
     0xAF, 0xEF, 0xBC, 0x8C, 0xE8, 0xAF, 0xB7, 0xE7, 0xA1, 0xAE, 0xE8, 0xAE, 0xA4, 0xE6, 0x93,
     0x8D, 0xE4, 0xBD, 0x9C]"

definition pattern_rm_root :: string where
  "pattern_rm_root = ''^rm'' @ [CHR 0x5C] @ ''s+-r[fF]?'' @ [CHR 0x5C] @ ''s+/(?!'' @ [CHR 0x5C] @ ''w)''"

definition pattern_service :: string where
  "pattern_service = ''^(systemctl|service)'' @ [CHR 0x5C] @ ''s+(restart|stop|halt)''"

definition pattern_mkfs :: string where
  "pattern_mkfs = ''^mkfs''"

definition pattern_reboot :: string where
  "pattern_reboot = ''^reboot|^shutdown|^init'' @ [CHR 0x5C] @ ''s+0|^init'' @ [CHR 0x5C] @ ''s+6''"

definition defaultRules :: "RuleConfig list" where
  "defaultRules =
     [\<lparr>C_ID = ''rule_rm_rf_root'', C_Pattern = pattern_rm_root, C_Level = RiskLevelHigh,
       C_Action = ActionBlock, C_Message = msg_rm_root\<rparr>,
      \<lparr>C_ID = ''rule_service_restart'', C_Pattern = pattern_service, C_Level = RiskLevelMedium,
       C_Action = ActionConfirm, C_Message = msg_service\<rparr>,
      \<lparr>C_ID = ''rule_mkfs'', C_Pattern = pattern_mkfs, C_Level = RiskLevelHigh,
       C_Action = ActionBlock, C_Message = msg_mkfs\<rparr>,
      \<lparr>C_ID = ''rule_reboot'', C_Pattern = pattern_reboot, C_Level = RiskLevelMedium,
       C_Action = ActionConfirm, C_Message = msg_reboot\<rparr>]"

definition AddDefaultRules :: "Engine \<Rightarrow> Engine \<times> risk_error option" where
  "AddDefaultRules e = LoadRulesFromJSON (Some (JArray (map encode_config defaultRules))) e"

section \<open>Lemmas\<close>

named_theorems risk_ops \<open>the engine's operations, unfolded\<close>

declare LoadRulesFromJSON_def [risk_ops] Check_def [risk_ops] CheckAndBlock_def [risk_ops]
  CheckAndConfirm_def [risk_ops]

lemma same_key_id: "same_key ''id'' ''id''" "\<not> same_key ''pattern'' ''id''" "\<not> same_key ''level'' ''id''"
  "\<not> same_key ''action'' ''id''" "\<not> same_key ''message'' ''id''"
  by code_simp+

lemma same_key_pattern: "same_key ''pattern'' ''pattern''" "\<not> same_key ''level'' ''pattern''"
  "\<not> same_key ''action'' ''pattern''" "\<not> same_key ''message'' ''pattern''"
  by code_simp+

lemma same_key_level: "same_key ''level'' ''level''" "\<not> same_key ''action'' ''level''"
  "\<not> same_key ''message'' ''level''" "same_key ''action'' ''action''"
  "\<not> same_key ''message'' ''action''" "same_key ''message'' ''message''"
  by code_simp+

lemmas same_key_facts = same_key_id same_key_pattern same_key_level

lemma decode_encode_config [simp]: "decode_config (encode_config c) = (c, True)"
  by (simp add: decode_config_def encode_config_def decode_field_def same_key_facts
      decode_string_def zero_config_def)

lemma decode_configs_encode [simp]: "decode_configs (JArray (map encode_config cs)) = (cs, True)"
  by (simp add: decode_configs_def list_all_iff comp_def)

lemma parse_configs_array [simp]:
  "parse_configs (Some (JArray (map encode_config cs))) = Inr cs"
  by (simp add: parse_configs_def decode_wrapper_def)

lemma Compile_rm_root: "Compile pattern_rm_root = Inl ErrInvalidPerlOp"
  by code_simp

lemma Compile_mkfs: "Compile pattern_mkfs = Inr (literal_prefix (map of_char ''mkfs''))"
  by code_simp

lemma parse_configs_wrapped [simp]:
  "cs \<noteq> [] \<Longrightarrow> parse_configs (Some (JObject [(''risk_rules'', JArray (map encode_config cs))])) = Inr cs"
  by (simp add: parse_configs_def decode_wrapper_def same_key_def)

text \<open>What the loop over the configurations answers.\<close>

definition compiles_to :: "RuleConfig \<Rightarrow> Rule \<Rightarrow> bool" where
  "compiles_to cfg rule \<longleftrightarrow> Compile (C_Pattern cfg) = Inr (R_Pattern rule) \<and> R_ID rule = C_ID cfg \<and>
     R_Level rule = C_Level cfg \<and> R_Action rule = C_Action cfg \<and> R_Message rule = C_Message cfg"

lemma compile_rules_Inr: "compile_rules cfgs = Inr rules \<Longrightarrow> list_all2 compiles_to cfgs rules"
  by (induction cfgs arbitrary: rules rule: compile_rules.induct)
    (auto simp: compiles_to_def split: sum.splits)

lemma compile_rules_Inl:
  "compile_rules cfgs = Inl err \<Longrightarrow>
    \<exists>pre cfg post e. cfgs = pre @ cfg # post \<and> Compile (C_Pattern cfg) = Inl e \<and>
      err = ErrCompilePattern (C_ID cfg) e \<and> list_all (\<lambda>c. \<exists>r. Compile (C_Pattern c) = Inr r) pre"
proof (induction cfgs)
  case (Cons cfg cfgs)
  show ?case
  proof (cases "Compile (C_Pattern cfg)")
    case (Inl e)
    then show ?thesis using Cons.prems by (intro exI [of _ "[]"]) auto
  next
    case (Inr r)
    then have "compile_rules cfgs = Inl err" using Cons.prems by (simp split: sum.splits)
    then obtain pre c post e where "cfgs = pre @ c # post" "Compile (C_Pattern c) = Inl e"
      "err = ErrCompilePattern (C_ID c) e" "list_all (\<lambda>c. \<exists>r. Compile (C_Pattern c) = Inr r) pre"
      using Cons.IH by blast
    then show ?thesis using Inr by (intro exI [of _ "cfg # pre"]) auto
  qed
qed simp

lemma compile_rules_bad:
  "Compile (C_Pattern cfg) = Inl e \<Longrightarrow> \<exists>err. compile_rules (pre @ cfg # post) = Inl err"
  by (induction pre) (auto split: sum.splits)

text \<open>The first-match search.\<close>

lemma find_first:
  "(\<forall>r\<in>set pre. \<not> P r) \<Longrightarrow> P x \<Longrightarrow> List.find P (pre @ x # post) = Some x"
  by (induction pre) auto

lemma find_Some_split:
  "List.find P xs = Some x \<longleftrightarrow> (\<exists>pre post. xs = pre @ x # post \<and> (\<forall>r\<in>set pre. \<not> P r) \<and> P x)"
proof
  assume "List.find P xs = Some x"
  then show "\<exists>pre post. xs = pre @ x # post \<and> (\<forall>r\<in>set pre. \<not> P r) \<and> P x"
  proof (induction xs)
    case (Cons y ys)
    show ?case
    proof (cases "P y")
      case True
      then show ?thesis using Cons.prems by (intro exI [of _ "[]"] exI [of _ ys]) auto
    next
      case False
      then obtain pre post where "ys = pre @ x # post" "\<forall>r\<in>set pre. \<not> P r" "P x"
        using Cons by auto
      then show ?thesis using False by (intro exI [of _ "y # pre"] exI [of _ post]) auto
    qed
  qed simp
qed (auto simp: find_first)

definition matches :: "string \<Rightarrow> Rule \<Rightarrow> bool" where
  "matches command rule = MatchString (R_Pattern rule) command"

definition first_match :: "Engine \<Rightarrow> string \<Rightarrow> Rule \<Rightarrow> bool" where
  \<comment> \<open>the rule is the first of the engine whose pattern matches the command\<close>
  "first_match e command rule \<longleftrightarrow>
     (\<exists>pre post. E_rules e = pre @ rule # post \<and> (\<forall>r\<in>set pre. \<not> matches command r) \<and>
        matches command rule)"

lemma Check_first: "first_match e command rule \<Longrightarrow>
    Check e command = (Some rule, R_Level rule, R_Action rule)"
  unfolding first_match_def find_Some_split [symmetric] by (simp add: Check_def matches_def [abs_def])

lemma Check_none: "\<forall>r\<in>set (E_rules e). \<not> matches command r \<Longrightarrow>
    Check e command = (None, RiskLevelLow, ActionAllow)"
  by (simp add: Check_def matches_def find_None_iff split: option.split)

lemma Check_cases:
  obtains (hit) rule where "first_match e command rule"
    "Check e command = (Some rule, R_Level rule, R_Action rule)"
  | (miss) "\<forall>r\<in>set (E_rules e). \<not> matches command r"
    "Check e command = (None, RiskLevelLow, ActionAllow)"
proof (cases "\<exists>rule. first_match e command rule")
  case True
  then show thesis using Check_first hit by blast
next
  case False
  have "\<forall>r\<in>set (E_rules e). \<not> matches command r"
  proof (rule ccontr)
    assume "\<not> ?thesis"
    then have "List.find (matches command) (E_rules e) \<noteq> None" by (auto simp: find_None_iff)
    then show False using False by (auto simp: find_Some_split first_match_def)
  qed
  then show thesis using Check_none miss by blast
qed

section \<open>Properties\<close>

text \<open>C1: the default rules do not load. The first pattern uses a Perl lookahead, which
  \<open>regexp.Compile\<close> rejects, so \<open>AddDefaultRules\<close> returns an error and leaves the engine as it was;
  the rules file, whose first rule is the same, fails in the same way. The error of
  \<open>AddDefaultRules\<close> is dropped by \<open>init\<close>, and an engine fresh from \<open>NewEngine\<close> then
  lets every command through.\<close>

theorem default_rules_fail_open:
  "AddDefaultRules e = (e, Some (ErrCompilePattern ''rule_rm_rf_root'' ErrInvalidPerlOp)) \<and>
   LoadRulesFromJSON (Some (JObject [(''risk_rules'', JArray (map encode_config (defaultRules @ extra)))])) e
     = (e, Some (ErrCompilePattern ''rule_rm_rf_root'' ErrInvalidPerlOp)) \<and>
   Check (fst (AddDefaultRules NewEngine)) command = (None, RiskLevelLow, ActionAllow) \<and>
   CheckAndBlock (fst (AddDefaultRules NewEngine)) command = (False, None)"
proof (intro conjI)
  have compile: "compile_rules (defaultRules @ rest) =
      Inl (ErrCompilePattern ''rule_rm_rf_root'' ErrInvalidPerlOp)" for rest
    by (simp add: defaultRules_def Compile_rm_root)
  show default: "AddDefaultRules e = (e, Some (ErrCompilePattern ''rule_rm_rf_root'' ErrInvalidPerlOp))" for e
    using compile [of "[]"] by (simp add: AddDefaultRules_def LoadRulesFromJSON_def)
  have "defaultRules @ extra \<noteq> []" by (simp add: defaultRules_def)
  then show "LoadRulesFromJSON
      (Some (JObject [(''risk_rules'', JArray (map encode_config (defaultRules @ extra)))])) e
     = (e, Some (ErrCompilePattern ''rule_rm_rf_root'' ErrInvalidPerlOp))"
    using compile parse_configs_wrapped [of "defaultRules @ extra"]
    by (simp add: LoadRulesFromJSON_def del: parse_configs_wrapped)
  show "Check (fst (AddDefaultRules NewEngine)) command = (None, RiskLevelLow, ActionAllow)"
    "CheckAndBlock (fst (AddDefaultRules NewEngine)) command = (False, None)"
    by (simp_all add: default NewEngine_def Check_def CheckAndBlock_def risk_consts)
qed

text \<open>C23: loading is all or nothing. When any pattern fails to compile, or the text is not JSON of
  either format, the error is returned and the engine keeps its previous rules; otherwise the new rules are exactly the
  configured ones, in order, each with its compiled pattern.\<close>

theorem load_rules_atomic:
  "case LoadRulesFromJSON data e of
     (e', Some err) \<Rightarrow> e' = e \<and>
       (parse_configs data = Inl err \<or>
        (\<exists>pre cfg post se. parse_configs data = Inr (pre @ cfg # post) \<and>
          Compile (C_Pattern cfg) = Inl se \<and> err = ErrCompilePattern (C_ID cfg) se \<and>
          list_all (\<lambda>c. \<exists>r. Compile (C_Pattern c) = Inr r) pre))
   | (e', None) \<Rightarrow> \<exists>cfgs. parse_configs data = Inr cfgs \<and> list_all2 compiles_to cfgs (E_rules e')"
proof (cases "parse_configs data")
  case (Inr cfgs)
  then show ?thesis
    using compile_rules_Inl [of cfgs] compile_rules_Inr [of cfgs]
    by (cases "compile_rules cfgs") (auto simp: LoadRulesFromJSON_def)
qed (simp add: LoadRulesFromJSON_def)

text \<open>C22: the check is first match wins. A command is blocked exactly when the first rule whose
  pattern matches it has the action \<open>block\<close>, and then that rule is reported; it needs confirmation exactly when that
  rule has the action \<open>confirm\<close>; with no matching rule it is allowed at low risk.\<close>

theorem check_first_match:
  "(CheckAndBlock e command = (True, Some rule) \<longleftrightarrow>
     first_match e command rule \<and> R_Action rule = ActionBlock) \<and>
   (CheckAndConfirm e command = (True, Some rule) \<longleftrightarrow>
     first_match e command rule \<and> R_Action rule = ActionConfirm) \<and>
   \<not> (fst (CheckAndBlock e command) \<and> fst (CheckAndConfirm e command)) \<and>
   (Check e command = (None, RiskLevelLow, ActionAllow) \<longleftrightarrow> (\<nexists>rule. first_match e command rule))"
proof (intro conjI)
  have uniq: "first_match e command r \<Longrightarrow> first_match e command rule \<Longrightarrow> r = rule" for r
    using Check_first [of e command r] Check_first [of e command rule] by simp
  show "CheckAndBlock e command = (True, Some rule) \<longleftrightarrow>
      first_match e command rule \<and> R_Action rule = ActionBlock"
    by (rule Check_cases [of e command])
      (auto simp: CheckAndBlock_def risk_consts Check_first dest: uniq)
  show "CheckAndConfirm e command = (True, Some rule) \<longleftrightarrow>
      first_match e command rule \<and> R_Action rule = ActionConfirm"
    by (rule Check_cases [of e command])
      (auto simp: CheckAndConfirm_def risk_consts Check_first dest: uniq)
  show "\<not> (fst (CheckAndBlock e command) \<and> fst (CheckAndConfirm e command))"
    by (cases "Check e command") (auto simp: CheckAndBlock_def CheckAndConfirm_def risk_consts)
  show "Check e command = (None, RiskLevelLow, ActionAllow) \<longleftrightarrow> (\<nexists>rule. first_match e command rule)"
    by (rule Check_cases [of e command]) (auto dest: Check_first)
qed

text \<open>What the default rules other than the first would do, had they been loaded.\<close>

lemma Compile_service: "case Compile pattern_service of Inr r \<Rightarrow> anchored r \<and> dead_at 109 r | Inl _ \<Rightarrow> False"
  by code_simp

lemma Compile_reboot: "case Compile pattern_reboot of Inr r \<Rightarrow> anchored r \<and> dead_at 109 r | Inl _ \<Rightarrow> False"
  by code_simp

text \<open>C37: without the rejected first rule the other default rules load, and a command is then
  blocked exactly when it starts with \<open>mkfs\<close>: the two confirmation rules before and after it cannot claim such a
  command first.\<close>

theorem mkfs_rule_exact:
  "snd (LoadRulesFromJSON (Some (JArray (map encode_config (tl defaultRules)))) e) = None \<and>
   (fst (CheckAndBlock (fst (LoadRulesFromJSON (Some (JArray (map encode_config (tl defaultRules)))) e))
     command) \<longleftrightarrow> prefix ''mkfs'' command)"
proof (intro conjI)
  obtain rs where rs: "Compile pattern_service = Inr rs" "anchored rs" "dead_at 109 rs"
    using Compile_service by (auto split: sum.splits)
  obtain rb where rb: "Compile pattern_reboot = Inr rb" "anchored rb" "dead_at 109 rb"
    using Compile_reboot by (auto split: sum.splits)
  define e' where "e' = fst (LoadRulesFromJSON (Some (JArray (map encode_config (tl defaultRules)))) e)"
  have ok: "snd (LoadRulesFromJSON (Some (JArray (map encode_config (tl defaultRules)))) e) = None"
    and rules: "map (\<lambda>r. (R_Pattern r, R_Action r)) (E_rules e') =
      [(rs, ActionConfirm), (literal_prefix (map of_char ''mkfs''), ActionBlock), (rb, ActionConfirm)]"
    unfolding e'_def
    by (simp_all add: LoadRulesFromJSON_def defaultRules_def rs(1) rb(1) Compile_mkfs del: list.map(2)) simp
  then obtain r1 r2 r3 where rules: "E_rules e' = [r1, r2, r3]"
    "R_Pattern r1 = rs" "R_Action r1 = ActionConfirm"
    "R_Pattern r2 = literal_prefix (map of_char ''mkfs'')" "R_Action r2 = ActionBlock"
    "R_Action r3 = ActionConfirm"
    by auto
  have mkfs: "MatchString (R_Pattern r2) command \<longleftrightarrow> prefix ''mkfs'' command"
    unfolding rules by (rule MatchString_literal_prefix) simp
  have "\<not> MatchString rs command" if mk: "prefix ''mkfs'' command"
  proof -
    obtain t where "command = CHR ''m'' # t" using mk by (auto simp: prefix_def)
    then show ?thesis using rs by (simp add: MatchString_anchored dead_at_match)
  qed
  then show "fst (CheckAndBlock e' command) \<longleftrightarrow> prefix ''mkfs'' command"
    using mkfs by (auto simp: CheckAndBlock_def Check_def rules risk_consts split: option.split)
  show "snd (LoadRulesFromJSON (Some (JArray (map encode_config (tl defaultRules)))) e) = None"
    by (rule ok)
qed

end
