(* ===== verification/RateLimit.thy ===== *)
theory RateLimit
  imports GoRuntime
begin

text \<open>
  \<open>internal/resource/rate_limiter.go\<close>: the per-address rate limiter, its reference that forgets
  nothing, and the simulation between the two. The clock readings are arguments; the limiter's lock,
  taken before the clock is read, makes each operation one step.
\<close>

section \<open>Rate limiter\<close>

record RateLimiter =
  RL_requests :: "string \<Rightarrow> time list option"
  RL_window :: duration
  RL_max :: int

definition NewRateLimiter :: "duration \<Rightarrow> int \<Rightarrow> RateLimiter" where
  "NewRateLimiter win mx = \<lparr>RL_requests = Map.empty, RL_window = win, RL_max = mx\<rparr>"

definition requests_of :: "RateLimiter \<Rightarrow> string \<Rightarrow> time list" where
  \<comment> \<open>\<open>rl.requests[ip]\<close>: nil for an address not in the map\<close>
  "requests_of rl ip = (case RL_requests rl ip of None \<Rightarrow> [] | Some ts \<Rightarrow> ts)"

definition still_valid :: "time \<Rightarrow> RateLimiter \<Rightarrow> time list \<Rightarrow> time list" where
  \<comment> \<open>the filtering loop of both operations\<close>
  "still_valid now rl ts = (let cutoff = now - RL_window rl in filter (\<lambda>t. cutoff < t) ts)"

definition Allow :: "time \<Rightarrow> string \<Rightarrow> RateLimiter \<Rightarrow> bool \<times> RateLimiter" where
  "Allow now ip rl =
     (let valid = still_valid now rl (requests_of rl ip)
      in if RL_max rl \<le> int (length valid)
         then (False, rl\<lparr>RL_requests := (RL_requests rl)(ip \<mapsto> valid)\<rparr>)
         else (True, rl\<lparr>RL_requests := (RL_requests rl)(ip \<mapsto> valid @ [now])\<rparr>))"

definition Cleanup :: "time \<Rightarrow> RateLimiter \<Rightarrow> RateLimiter" where
  "Cleanup now rl = rl\<lparr>RL_requests := (\<lambda>ip.
     case RL_requests rl ip of
       None \<Rightarrow> None
     | Some ts \<Rightarrow> (let valid = still_valid now rl ts
                   in if length valid = 0 then None else Some valid))\<rparr>"

subsection \<open>Reference: nothing is forgotten\<close>

datatype limiter_event = Request time string | Sweep time

fun event_time :: "limiter_event \<Rightarrow> time" where
  "event_time (Request now ip) = now"
| "event_time (Sweep now) = now"

fun limiter_step :: "limiter_event \<Rightarrow> RateLimiter \<Rightarrow> bool option \<times> RateLimiter" where
  "limiter_step (Request now ip) rl = (let (b, rl') = Allow now ip rl in (Some b, rl'))"
| "limiter_step (Sweep now) rl = (None, Cleanup now rl)"

record limiter_log =
  L_now :: time
  L_log :: "(time \<times> string) list" \<comment> \<open>every request ever accepted\<close>

definition accepted :: "limiter_log \<Rightarrow> string \<Rightarrow> time list" where
  "accepted h ip = map fst (filter (\<lambda>e. snd e = ip) (L_log h))"

definition in_window :: "time \<Rightarrow> duration \<Rightarrow> time \<Rightarrow> bool" where
  \<comment> \<open>the window of length \<open>w\<close> that ends at \<open>t\<close>\<close>
  "in_window t w u \<longleftrightarrow> t - w < u \<and> u \<le> t"

fun log_step :: "duration \<Rightarrow> int \<Rightarrow> limiter_event \<Rightarrow> limiter_log \<Rightarrow> bool option \<times> limiter_log" where
  "log_step w mx (Request now ip) h =
     (if int (length (filter (in_window now w) (accepted h ip))) < mx
      then (Some True, h\<lparr>L_now := now, L_log := L_log h @ [(now, ip)]\<rparr>)
      else (Some False, h\<lparr>L_now := now\<rparr>))"
| "log_step w mx (Sweep now) h = (None, h\<lparr>L_now := now\<rparr>)"

definition clock_ok :: "limiter_event \<Rightarrow> limiter_log \<Rightarrow> bool" where
  \<comment> \<open>the monotonic clock does not go back\<close>
  "clock_ok e h \<longleftrightarrow> L_now h \<le> event_time e"

definition log_ok :: "duration \<Rightarrow> int \<Rightarrow> limiter_log \<Rightarrow> bool" where
  "log_ok w mx h \<longleftrightarrow> (\<forall>e\<in>set (L_log h). fst e \<le> L_now h) \<and>
     (\<forall>t ip. int (length (filter (in_window t w) (accepted h ip))) \<le> max 0 mx)"

definition limiter_rel :: "duration \<Rightarrow> int \<Rightarrow> RateLimiter \<Rightarrow> limiter_log \<Rightarrow> bool" where
  \<comment> \<open>the limiter remembers all the log has after any cutoff still to come\<close>
  "limiter_rel w mx rl h \<longleftrightarrow> RL_window rl = w \<and> RL_max rl = mx \<and> log_ok w mx h \<and>
     (\<forall>ip c. L_now h - w \<le> c \<longrightarrow>
        filter (\<lambda>t. c < t) (requests_of rl ip) = filter (\<lambda>t. c < t) (accepted h ip))"

lemma limiter_rel_new: "0 \<le> w \<Longrightarrow> limiter_rel w mx (NewRateLimiter w mx) \<lparr>L_now = t, L_log = []\<rparr>"
  by (simp add: limiter_rel_def NewRateLimiter_def requests_of_def accepted_def log_ok_def)

lemma accepted_append [simp]:
  "accepted (h\<lparr>L_now := t, L_log := L_log h @ [(now, ip)]\<rparr>) ip' =
     accepted h ip' @ (if ip' = ip then [now] else [])"
  by (simp add: accepted_def)

lemma accepted_empty [simp]: "accepted \<lparr>L_now = t, L_log = []\<rparr> ip = []"
  by (simp add: accepted_def)

lemma accepted_now [simp]: "accepted (h\<lparr>L_now := t\<rparr>) ip = accepted h ip"
  by (simp add: accepted_def)

lemma accepted_le: "\<forall>e\<in>set (L_log h). fst e \<le> T \<Longrightarrow> t \<in> set (accepted h ip) \<Longrightarrow> t \<le> T"
  by (auto simp: accepted_def)

lemma window_is_cutoff:
  "\<forall>e\<in>set (L_log h). fst e \<le> L_now h \<Longrightarrow> L_now h \<le> now \<Longrightarrow>
    filter (in_window now w) (accepted h ip) = filter (\<lambda>t. now - w < t) (accepted h ip)"
  by (rule filter_cong) (auto simp: in_window_def dest: accepted_le)

lemma log_ok_step:
  assumes ok: "log_ok w mx h" and clk: "clock_ok e h"
  shows "log_ok w mx (snd (log_step w mx e h))"
proof (cases e)
  case (Sweep now)
  then show ?thesis using ok clk by (auto simp: log_ok_def clock_ok_def)
next
  case (Request now ip)
  have past: "\<forall>e\<in>set (L_log h). fst e \<le> L_now h" using ok by (simp add: log_ok_def)
  show ?thesis
  proof (cases "int (length (filter (in_window now w) (accepted h ip))) < mx")
    case False
    then show ?thesis using Request ok clk by (auto simp: log_ok_def clock_ok_def)
  next
    case True
    have "int (length (filter (in_window t w) (accepted h ip @ [now]))) \<le> max 0 mx" for t
    proof (cases "in_window t w now")
      case False
      then show ?thesis using ok by (simp add: log_ok_def)
    next
      case in_w: True
      have "length (filter (in_window t w) (accepted h ip)) \<le>
          length (filter (in_window now w) (accepted h ip))"
        using in_w clk Request past
        by (intro length_filter_mono) (auto simp: in_window_def clock_ok_def dest: accepted_le)
      then show ?thesis using True in_w by simp
    qed
    then show ?thesis
      using True Request ok clk past unfolding log_ok_def
      by (auto simp: clock_ok_def)
  qed
qed

lemma Allow_requests:
  "requests_of (snd (Allow now ip rl)) ip' =
     (if ip' = ip then still_valid now rl (requests_of rl ip) @ (if fst (Allow now ip rl) then [now] else [])
      else requests_of rl ip')"
  by (simp add: Allow_def Let_def requests_of_def)

lemma Allow_config: "RL_window (snd (Allow now ip rl)) = RL_window rl" "RL_max (snd (Allow now ip rl)) = RL_max rl"
  by (simp_all add: Allow_def Let_def)

lemma Cleanup_requests: "requests_of (Cleanup now rl) ip = still_valid now rl (requests_of rl ip)"
  by (auto simp: Cleanup_def requests_of_def still_valid_def Let_def split: option.splits)

lemma Cleanup_config: "RL_window (Cleanup now rl) = RL_window rl" "RL_max (Cleanup now rl) = RL_max rl"
  by (simp_all add: Cleanup_def)

lemma still_valid_after:
  "now - RL_window rl \<le> c \<Longrightarrow> filter (\<lambda>t. c < t) (still_valid now rl ts) = filter (\<lambda>t. c < t) ts"
  by (auto simp: still_valid_def Let_def intro: filter_cong)

lemma limiter_rel_valid:
  assumes "limiter_rel w mx rl h" "L_now h \<le> now"
  shows "still_valid now rl (requests_of rl ip) = filter (in_window now w) (accepted h ip)"
  using assms window_is_cutoff [of h now w ip]
  by (simp add: limiter_rel_def log_ok_def still_valid_def Let_def)

lemma limiter_rel_allow:
  assumes "limiter_rel w mx rl h" "L_now h \<le> now"
  shows "fst (Allow now ip rl) \<longleftrightarrow> int (length (filter (in_window now w) (accepted h ip))) < mx"
  using limiter_rel_valid [OF assms] assms(1)
  by (simp add: Allow_def Let_def limiter_rel_def not_le)

lemma limiter_sim_output:
  "limiter_rel w mx rl h \<Longrightarrow> clock_ok e h \<Longrightarrow> fst (limiter_step e rl) = fst (log_step w mx e h)"
  by (cases e) (auto simp: clock_ok_def limiter_rel_allow split_beta)

lemma limiter_sim_state:
  assumes rel: "limiter_rel w mx rl h" and clk: "clock_ok e h"
  shows "limiter_rel w mx (snd (limiter_step e rl)) (snd (log_step w mx e h))"
proof -
  have ok: "log_ok w mx (snd (log_step w mx e h))"
    using log_ok_step rel clk by (simp add: limiter_rel_def)
  have old: "\<And>c ip. L_now h - w \<le> c \<Longrightarrow>
      filter (\<lambda>t. c < t) (requests_of rl ip) = filter (\<lambda>t. c < t) (accepted h ip)"
    and cfg: "RL_window rl = w" "RL_max rl = mx"
    using rel by (simp_all add: limiter_rel_def)
  show ?thesis
  proof (cases e)
    case (Sweep now)
    then show ?thesis
      using ok old cfg clk
      by (simp add: limiter_rel_def Cleanup_requests Cleanup_config still_valid_after clock_ok_def)
  next
    case (Request now ip)
    have dec: "fst (Allow now ip rl) \<longleftrightarrow> int (length (filter (in_window now w) (accepted h ip))) < mx"
      using limiter_rel_allow [OF rel] clk Request by (simp add: clock_ok_def)
    have "filter (\<lambda>t. c < t) (requests_of (snd (Allow now ip rl)) ip') =
        filter (\<lambda>t. c < t) (accepted (snd (log_step w mx e h)) ip')" if "now - w \<le> c" for c ip'
      using that old [of c] clk Request dec cfg
      by (simp add: Allow_requests still_valid_after clock_ok_def)
    then show ?thesis
      using ok cfg Request by (simp add: limiter_rel_def Allow_config split_beta)
  qed
qed

interpretation limiter: lockstep limiter_step "log_step w mx" clock_ok "limiter_rel w mx"
  by unfold_locales (auto intro: limiter_sim_output limiter_sim_state)

lemma log_run_ok:
  "log_ok w mx h \<Longrightarrow> run_allowed clock_ok (log_step w mx) es h \<Longrightarrow>
    log_ok w mx (snd (run_outputs (log_step w mx) es h))"
proof (induction es arbitrary: h)
  case (Cons e es)
  then show ?case
    using log_ok_step [of w mx h e] by (auto simp: Let_def split: prod.splits dest: Cons.IH)
qed simp

text \<open>The requests of an address that were granted, read off the outputs.\<close>

fun granted :: "limiter_event list \<Rightarrow> bool option list \<Rightarrow> string \<Rightarrow> time list" where
  "granted (Request now ip' # es) (out # outs) ip =
     (if ip' = ip \<and> out = Some True then now # granted es outs ip else granted es outs ip)"
| "granted (Sweep now # es) (out # outs) ip = granted es outs ip"
| "granted _ _ ip = []"

lemma log_run_granted:
  "accepted (snd (run_outputs (log_step w mx) es h)) ip =
    accepted h ip @ granted es (fst (run_outputs (log_step w mx) es h)) ip"
proof (induction es arbitrary: h)
  case (Cons e es)
  then show ?case by (cases e) (auto simp: split_beta)
qed simp

subsection \<open>Properties\<close>

text \<open>C20: forgetting is invisible. Along any sequence of requests and sweeps whose clock does not go
  back, the limiter answers as a reference that never drops an entry: a request is accepted exactly
  when fewer than \<open>max\<close> requests of its address were accepted in the window that ends now.\<close>

theorem rate_limiter_refines:
  assumes "0 \<le> w" and "run_allowed clock_ok (log_step w mx) es \<lparr>L_now = t, L_log = []\<rparr>"
  shows "fst (run_outputs limiter_step es (NewRateLimiter w mx)) =
    fst (run_outputs (log_step w mx) es \<lparr>L_now = t, L_log = []\<rparr>)"
  using limiter_rel_new [OF assms(1)] assms(2) by (rule limiter.run_same_outputs)

theorem rate_limiter_refines_witness:
  "fst (run_outputs limiter_step [Request 1 ''a'', Request 2 ''a'', Request 3 ''a'', Sweep 12, Request 12 ''a'']
     (NewRateLimiter 10 2)) = [Some True, Some True, Some False, None, Some True]"
  using rate_limiter_refines [of 10 2 "[Request 1 ''a'', Request 2 ''a'', Request 3 ''a'', Sweep 12, Request 12 ''a'']" 0]
  by (simp add: clock_ok_def accepted_def in_window_def)

text \<open>C6: the bound of the limiter. In every window of the configured length, wherever it lies, at
  most \<open>max\<close> requests of one address are granted, whatever the sweeps in between.\<close>

theorem rate_limiter_window:
  assumes "0 \<le> w" "0 \<le> mx" and "run_allowed clock_ok (log_step w mx) es \<lparr>L_now = t0, L_log = []\<rparr>"
  shows "int (length (filter (in_window t w)
    (granted es (fst (run_outputs limiter_step es (NewRateLimiter w mx))) ip))) \<le> mx"
proof -
  have "log_ok w mx \<lparr>L_now = t0, L_log = []\<rparr>" using assms(2) by (simp add: log_ok_def accepted_def)
  then have "log_ok w mx (snd (run_outputs (log_step w mx) es \<lparr>L_now = t0, L_log = []\<rparr>))"
    using assms(3) by (rule log_run_ok)
  then have "int (length (filter (in_window t w)
      (accepted (snd (run_outputs (log_step w mx) es \<lparr>L_now = t0, L_log = []\<rparr>)) ip))) \<le> mx"
    using assms(2) by (simp add: log_ok_def max_def)
  then show ?thesis
    using limiter.run_same_outputs [OF limiter_rel_new [OF assms(1)] assms(3)]
    by (simp add: log_run_granted)
qed

theorem rate_limiter_window_witness:
  "length (filter (in_window 12 10) (granted
     [Request 1 ''a'', Request 5 ''a'', Request 6 ''a'', Sweep 12, Request 12 ''a'', Request 12 ''a'']
     (fst (run_outputs limiter_step
       [Request 1 ''a'', Request 5 ''a'', Request 6 ''a'', Sweep 12, Request 12 ''a'', Request 12 ''a'']
       (NewRateLimiter 10 2))) ''a'')) \<le> 2"
  using rate_limiter_window [of 10 2
      "[Request 1 ''a'', Request 5 ''a'', Request 6 ''a'', Sweep 12, Request 12 ''a'', Request 12 ''a'']" 0 12 "''a''"]
  by (simp add: clock_ok_def accepted_def in_window_def)

end
