(* ===== verification/Float64.thy ===== *)
theory Float64
  imports Prelude "HOL-Library.Log_Nat"
begin

text \<open>
  IEEE 754 binary64 as the circuit breaker uses it: the conversion of non-negative integers,
  division, and the comparison with a constant. Finite values are rationals rounded to 53 significant
  bits, ties to even; the magnitudes reached (between \<open>2 ^ -64\<close> and \<open>2 ^ 128\<close>) neither overflow nor
  underflow, so subnormals and the upper bound do not occur.
\<close>

section \<open>Rounding\<close>

definition rne :: "rat \<Rightarrow> int" where
  \<comment> \<open>nearest integer, ties to even\<close>
  "rne x = (let f = \<lfloor>x\<rfloor>; d = x - of_int f in
     if d < 1 / 2 then f else if 1 / 2 < d then f + 1 else if even f then f else f + 1)"

definition binexp :: "rat \<Rightarrow> int" where
  \<comment> \<open>the exponent of a positive rational: \<open>2 ^ e \<le> x < 2 ^ (e + 1)\<close>\<close>
  "binexp x =
     (let (a, b) = quotient_of x; k = int (floorlog 2 (nat a)) - int (floorlog 2 (nat b))
      in if 2 powi k \<le> x then k else k - 1)"

definition fl :: "rat \<Rightarrow> rat" where
  "fl x = (if x \<le> 0 then 0
     else let e = binexp x in of_int (rne (x * 2 powi (52 - e))) * 2 powi (e - 52))"

datatype float64 = Finite rat | PosInf | NaN

definition float64_of :: "nat \<Rightarrow> float64" where
  "float64_of n = Finite (fl (of_nat n))"

fun fdiv :: "float64 \<Rightarrow> float64 \<Rightarrow> float64" where
  \<comment> \<open>division of non-negative values\<close>
  "fdiv (Finite x) (Finite y) =
     (if y \<noteq> 0 then Finite (fl (x / y)) else if x = 0 then NaN else PosInf)"
| "fdiv PosInf (Finite y) = PosInf"
| "fdiv (Finite x) PosInf = Finite 0"
| "fdiv _ _ = NaN"

fun fge :: "float64 \<Rightarrow> float64 \<Rightarrow> bool" where
  \<comment> \<open>\<open>>=\<close>: false when an operand is not a number\<close>
  "fge (Finite x) (Finite y) \<longleftrightarrow> y \<le> x"
| "fge PosInf y \<longleftrightarrow> y \<noteq> NaN"
| "fge _ _ \<longleftrightarrow> False"

section \<open>Lemmas\<close>

lemma rne_cases: "rne x = \<lfloor>x\<rfloor> \<and> x \<le> of_int \<lfloor>x\<rfloor> + 1 / 2 \<or> rne x = \<lfloor>x\<rfloor> + 1 \<and> of_int \<lfloor>x\<rfloor> + 1 / 2 \<le> x"
  unfolding rne_def Let_def by auto

lemma rne_of_int [simp]: "rne (of_int k) = k"
  by (simp add: rne_def)

lemma rne_bounds: "of_int (rne x) \<le> x + 1 / 2" "x - 1 / 2 \<le> of_int (rne x)"
proof -
  have floor: "of_int \<lfloor>x\<rfloor> \<le> x" "x < of_int \<lfloor>x\<rfloor> + 1" using floor_correct [of x] by simp_all
  moreover from rne_cases [of x]
  have "(of_int (rne x) :: rat) = of_int \<lfloor>x\<rfloor> \<and> x \<le> of_int \<lfloor>x\<rfloor> + 1 / 2 \<or>
      (of_int (rne x) :: rat) = of_int \<lfloor>x\<rfloor> + 1 \<and> of_int \<lfloor>x\<rfloor> + 1 / 2 \<le> x"
    by auto
  ultimately show "of_int (rne x) \<le> x + 1 / 2" "x - 1 / 2 \<le> of_int (rne x)"
    by linarith+
qed

lemma rne_mono:
  assumes "x \<le> y"
  shows "rne x \<le> rne y"
proof (cases "\<lfloor>x\<rfloor> = \<lfloor>y\<rfloor>")
  case True
  then show ?thesis
    using assms rne_cases [of x] rne_cases [of y] by (auto simp: rne_def Let_def)
next
  case False
  then have "\<lfloor>x\<rfloor> + 1 \<le> \<lfloor>y\<rfloor>" using floor_mono [OF assms] by linarith
  then show ?thesis using rne_cases [of x] rne_cases [of y] by auto
qed

lemma rne_ge: "of_int k \<le> x \<Longrightarrow> k \<le> rne x"
  using rne_mono [of "of_int k" x] by simp

lemma rne_le: "x \<le> of_int k \<Longrightarrow> rne x \<le> k"
  using rne_mono [of x "of_int k"] by simp

lemma powi_diff: "(2 :: rat) powi (m - n) = 2 powi m / 2 powi n"
  by (simp add: power_int_diff)

lemma floorlog_window:
  assumes "0 < n"
  shows "(2 :: rat) powi (int (floorlog 2 n) - 1) \<le> of_nat n" "of_nat n < (2 :: rat) powi int (floorlog 2 n)"
proof -
  have pos: "0 < floorlog 2 n" using assms by (simp add: floorlog_eq_zero_iff flip: neq0_conv)
  have "2 ^ (floorlog 2 n - 1) \<le> n \<and> n < 2 ^ floorlog 2 n"
    using floorlog_bounds [of n 2] assms by simp
  then have "(of_nat (2 ^ (floorlog 2 n - 1)) :: rat) \<le> of_nat n" "(of_nat n :: rat) < of_nat (2 ^ floorlog 2 n)"
    unfolding of_nat_le_iff of_nat_less_iff by simp_all
  moreover have "int (floorlog 2 n) - 1 = int (floorlog 2 n - 1)" using pos by simp
  ultimately show "(2 :: rat) powi (int (floorlog 2 n) - 1) \<le> of_nat n"
    "of_nat n < (2 :: rat) powi int (floorlog 2 n)"
    by (simp_all only: power_int_of_nat of_nat_power of_nat_numeral)
qed

lemma binexp_bounds:
  assumes "0 < x"
  shows "2 powi binexp x \<le> x" "x < 2 * 2 powi binexp x"
proof -
  obtain a b where q: "quotient_of x = (a, b)" by fastforce
  have b: "0 < b" using quotient_of_denom_pos [OF q] .
  have x: "x = of_int a / of_int b" using quotient_of_div [OF q] .
  have a: "0 < a" using assms b by (simp add: x zero_less_divide_iff)
  let ?fa = "int (floorlog 2 (nat a))" and ?fb = "int (floorlog 2 (nat b))"
  have A: "(2 :: rat) powi (?fa - 1) \<le> of_int a" "(of_int a :: rat) < 2 powi ?fa"
    using floorlog_window [of "nat a"] a by simp_all
  have B: "(2 :: rat) powi (?fb - 1) \<le> of_int b" "(of_int b :: rat) < 2 powi ?fb"
    using floorlog_window [of "nat b"] b by simp_all
  have "x < 2 powi ?fa / 2 powi (?fb - 1)"
    unfolding x using A B a b by (intro frac_less) auto
  then have hi: "x < 2 * 2 powi (?fa - ?fb)" by (simp add: powi_diff mult.commute)
  have "2 powi (?fa - 1) / 2 powi ?fb < x"
    unfolding x using A B a b by (intro frac_less2) auto
  then have lo: "2 powi (?fa - ?fb - 1) \<le> x" by (simp add: powi_diff)
  show "2 powi binexp x \<le> x" "x < 2 * 2 powi binexp x"
    using hi lo unfolding binexp_def q Let_def prod.case by (auto simp: powi_diff)
qed

lemma powi_two_less: "(2 :: rat) powi m < 2 powi n \<longleftrightarrow> m < n"
  using power_int_strict_increasing [of m n "2 :: rat"] power_int_increasing [of n m "2 :: rat"]
  by (cases "m < n") auto

lemma binexp_unique:
  assumes "2 powi e \<le> x" "x < 2 * 2 powi e"
  shows "binexp x = e"
proof -
  have "0 < x" using assms(1) by (rule less_le_trans [rotated]) simp
  note bounds = binexp_bounds [OF this]
  have double: "(2 :: rat) * 2 powi k = 2 powi (k + 1)" for k by (simp add: power_int_add)
  have "(2 :: rat) powi e < 2 powi (binexp x + 1)" using assms(1) bounds(2) by (simp add: double)
  moreover have "(2 :: rat) powi binexp x < 2 powi (e + 1)" using assms(2) bounds(1) by (simp add: double)
  ultimately show ?thesis unfolding powi_two_less by linarith
qed

lemma fl_eq: "0 < x \<Longrightarrow> binexp x = e \<Longrightarrow> fl x = of_int (rne (x * 2 powi (52 - e))) * 2 powi (e - 52)"
  by (simp add: fl_def)

lemma fl_zero [simp]: "fl 0 = 0"
  by (simp add: fl_def)

lemma powi_cancel: "(2 :: rat) powi (52 - e) * 2 powi (e - 52) = 1"
  by (simp flip: power_int_add)

lemma fl_of_nat:
  assumes "n < 2 ^ 53"
  shows "fl (of_nat n) = of_nat n"
proof (cases "n = 0")
  case False
  define e where "e = binexp (of_nat n)"
  have bounds: "2 powi e \<le> (of_nat n :: rat)" "(of_nat n :: rat) < 2 * 2 powi e"
    using binexp_bounds [of "of_nat n"] False by (simp_all add: e_def)
  have "(of_nat n :: rat) < of_nat (2 ^ 53)" unfolding of_nat_less_iff by (rule assms)
  then have "(of_nat n :: rat) < 2 powi 53" by simp
  then have "(2 :: rat) powi e < 2 powi 53" by (rule le_less_trans [OF bounds(1)])
  then have "e \<le> 52" unfolding powi_two_less by simp
  then have "(2 :: rat) powi (52 - e) = of_int (2 ^ nat (52 - e))"
    by (simp add: power_int_def)
  then have "of_nat n * (2 :: rat) powi (52 - e) = of_int (int n * 2 ^ nat (52 - e))" by simp
  then have "fl (of_nat n) = (of_nat n * 2 powi (52 - e)) * 2 powi (e - 52)"
    using fl_eq [of "of_nat n" e] False e_def by (simp only: rne_of_int of_nat_0_less_iff neq0_conv)
  then show ?thesis by (simp add: powi_cancel mult.assoc)
qed simp

lemma fl_half:
  assumes "1 / 2 \<le> x" "x < 1"
  shows "fl x = of_int (rne (x * 2 ^ 53)) / 2 ^ 53"
proof -
  have half: "(2 :: rat) powi - 1 = 1 / 2" by (simp add: power_int_minus inverse_eq_divide)
  have "binexp x = - 1" using assms half by (intro binexp_unique) simp_all
  moreover have "(2 :: rat) powi 53 = 2 ^ 53" by simp
  moreover have "(2 :: rat) powi - 53 = 1 / 2 ^ 53" by (simp add: power_int_minus inverse_eq_divide)
  ultimately show ?thesis using fl_eq [of x "- 1"] assms by simp
qed

lemma fl_ge_one:
  assumes "1 \<le> x"
  shows "1 \<le> fl x"
proof -
  define e where "e = binexp x"
  have b: "2 powi e \<le> x" "x < 2 * 2 powi e" using binexp_bounds [of x] assms by (simp_all add: e_def)
  have "(2 :: rat) powi 0 < 2 powi (e + 1)" using assms b(2) by (simp add: power_int_add)
  then have e: "0 \<le> e" unfolding powi_two_less by simp
  have "(2 :: rat) ^ 52 = 2 powi e * 2 powi (52 - e)" by (simp add: powi_diff)
  also have "\<dots> \<le> x * 2 powi (52 - e)" using b by simp
  finally have "2 ^ 52 \<le> rne (x * 2 powi (52 - e))" by (intro rne_ge) simp
  then have "(2 ^ 52 :: rat) \<le> of_int (rne (x * 2 powi (52 - e)))"
    unfolding of_int_le_iff [symmetric, where 'a = rat] by simp
  then have "2 ^ 52 * (2 :: rat) powi (e - 52) \<le> fl x"
    using fl_eq [of x e] assms e_def by simp
  moreover have "2 ^ 52 * (2 :: rat) powi (e - 52) = 2 powi e" by (simp add: powi_diff)
  moreover have "(1 :: rat) \<le> 2 powi e" using e by (simp add: power_int_def)
  ultimately show ?thesis by simp
qed

lemma fl_le_half:
  assumes "0 \<le> x" "x < 1 / 2"
  shows "fl x \<le> 1 / 2"
proof (cases "x = 0")
  case False
  define e where "e = binexp x"
  have b: "2 powi e \<le> x" "x < 2 * 2 powi e"
    using binexp_bounds [of x] assms False by (simp_all add: e_def)
  have half: "(2 :: rat) powi - 1 = 1 / 2" by (simp add: power_int_minus inverse_eq_divide)
  have "(2 :: rat) powi e < 2 powi - 1" using assms b(1) by (simp add: half)
  then have e: "e \<le> - 2" unfolding powi_two_less by simp
  have "x * 2 powi (52 - e) \<le> 2 * 2 powi e * 2 powi (52 - e)" using b by simp
  also have "\<dots> = 2 ^ 53" by (simp add: powi_diff)
  finally have "rne (x * 2 powi (52 - e)) \<le> 2 ^ 53" by (intro rne_le) simp
  then have "of_int (rne (x * 2 powi (52 - e))) \<le> (2 ^ 53 :: rat)"
    unfolding of_int_le_iff [symmetric, where 'a = rat] by simp
  then have "fl x \<le> 2 ^ 53 * 2 powi (e - 52)"
    using fl_eq [of x e] assms False e_def by simp
  also have "\<dots> = 2 powi (e + 1)" by (simp add: powi_diff power_int_add)
  also have "\<dots> \<le> (2 :: rat) powi - 1" using e by (intro power_int_increasing) simp_all
  finally show ?thesis by (simp add: half)
qed simp

text \<open>Rounding does not move a value across a constant from which it keeps some distance.\<close>

lemma fl_threshold:
  assumes q: "1 / 2 + 1 / 2 ^ 52 \<le> q" "q < 1" and x: "0 \<le> x" and gap: "x < q \<Longrightarrow> x + 1 / 2 ^ 52 \<le> q"
  shows "fl q \<le> fl x \<longleftrightarrow> q \<le> x"
proof -
  have half: "(1 :: rat) / 2 \<le> 1 / 2 + 1 / 2 ^ 52" by simp
  then have q': "1 / 2 \<le> q" using q by linarith
  have flq: "fl q = of_int (rne (q * 2 ^ 53)) / 2 ^ 53" using q' q(2) by (rule fl_half)
  have q_one: "fl q \<le> 1"
  proof -
    have "rne (q * 2 ^ 53) \<le> 2 ^ 53" using q(2) by (intro rne_le) simp
    then have "of_int (rne (q * 2 ^ 53)) \<le> (2 ^ 53 :: rat)"
      unfolding of_int_le_iff [symmetric, where 'a = rat] by simp
    then show ?thesis by (simp add: flq)
  qed
  have q_half: "1 / 2 < fl q"
    using rne_bounds(2) [of "q * 2 ^ 53"] q(1) by (simp add: flq field_simps)
  consider "x < 1 / 2" | "1 / 2 \<le> x" "x < 1" | "1 \<le> x" by linarith
  then show ?thesis
  proof cases
    case 1
    then show ?thesis using fl_le_half [OF x] q_half q' by linarith
  next
    case 2
    have flx: "fl x = of_int (rne (x * 2 ^ 53)) / 2 ^ 53" using 2 by (rule fl_half)
    show ?thesis
    proof (cases "q \<le> x")
      case True
      then have "rne (q * 2 ^ 53) \<le> rne (x * 2 ^ 53)" by (intro rne_mono) simp
      then show ?thesis using True by (simp add: flx flq divide_right_mono)
    next
      case False
      then have "(x + 1 / 2 ^ 52) * 2 ^ 53 \<le> q * 2 ^ 53"
        using gap by (intro mult_right_mono) simp_all
      then have "x * 2 ^ 53 + 2 \<le> q * 2 ^ 53" by (simp add: field_simps)
      then have "of_int (rne (x * 2 ^ 53)) < (of_int (rne (q * 2 ^ 53)) :: rat)"
        using rne_bounds(1) [of "x * 2 ^ 53"] rne_bounds(2) [of "q * 2 ^ 53"] by linarith
      then show ?thesis using False by (simp add: flx flq)
    qed
  next
    case 3
    then show ?thesis using fl_ge_one [of x] q_one q(2) by linarith
  qed
qed

end
