(* ===== verification/Breaker.thy ===== *)
theory Breaker
  imports GoRuntime Float64
begin

text \<open>
  \<open>internal/resource/circuit_breaker.go\<close> and \<open>guard.go\<close>: counting the open descriptors, the circuit
  breaker driven by the count, and the start-up checks. What the kernel answers (the listing of
  \<open>/proc/self/fd\<close>, \<open>getrlimit\<close>, \<open>statfs\<close>) is an argument.
\<close>

section \<open>Counting descriptors\<close>

type_synonym os_error = string

fun count_fds :: "nat \<Rightarrow> (os_error + string list) list \<Rightarrow> nat" where
  \<comment> \<open>the loop of \<open>GetCurrentFDUsage\<close>; the list holds the results of the successive \<open>Readdirnames(100)\<close>\<close>
  "count_fds count [] = count"
| "count_fds count (Inl err # reads) = count"
| "count_fds count (Inr names # reads) =
     (if length names < 100 then count + length names else count_fds (count + length names) reads)"

definition GetCurrentFDUsage :: "os_error + (os_error + string list) list \<Rightarrow> os_error + nat" where
  "GetCurrentFDUsage fd_dir =
     (case fd_dir of Inl err \<Rightarrow> Inl err | Inr reads \<Rightarrow> Inr (count_fds 0 reads))"

function dir_reads :: "string list \<Rightarrow> (os_error + string list) list" where
  \<comment> \<open>what \<open>Readdirnames(100)\<close> answers on a directory with these entries\<close>
  "dir_reads names =
     (if names = [] then [Inl ''EOF''] else Inr (take 100 names) # dir_reads (drop 100 names))"
  by pat_completeness auto
termination
  by (relation "measure length") auto

declare dir_reads.simps [simp del]

lemma count_dir_reads: "count_fds count (dir_reads names) = count + length names"
proof (induction names arbitrary: count rule: dir_reads.induct)
  case (1 names)
  show ?case
  proof (cases "length names < 100")
    case True
    then show ?thesis by (subst dir_reads.simps) simp
  next
    case False
    then have "names \<noteq> []" by auto
    then show ?thesis
      using False 1 by (subst dir_reads.simps) (simp add: min_absorb2 not_less)
  qed
qed

section \<open>Circuit breaker\<close>

datatype CircuitState = CircuitNormal | CircuitWarning | CircuitOpen

fun circuit_code :: "CircuitState \<Rightarrow> nat" where
  \<comment> \<open>the \<open>iota\<close> constants\<close>
  "circuit_code CircuitNormal = 0"
| "circuit_code CircuitWarning = 1"
| "circuit_code CircuitOpen = 2"

lemma circuit_code_inj: "circuit_code a = circuit_code b \<longleftrightarrow> a = b"
  by (cases a; cases b) simp_all

instantiation CircuitState :: linorder
begin

definition less_eq_CircuitState :: "CircuitState \<Rightarrow> CircuitState \<Rightarrow> bool" where
  "less_eq_CircuitState a b \<longleftrightarrow> circuit_code a \<le> circuit_code b"

definition less_CircuitState :: "CircuitState \<Rightarrow> CircuitState \<Rightarrow> bool" where
  "less_CircuitState a b \<longleftrightarrow> circuit_code a < circuit_code b"

instance
  by standard (auto simp: less_eq_CircuitState_def less_CircuitState_def circuit_code_inj)

end

record CircuitBreaker =
  CB_state :: CircuitState
  CB_fdLimit :: nat \<comment> \<open>a \<open>uint64\<close>\<close>
  CB_currentFD :: int
  CB_warningCount :: "32 word"
  CB_openUntil :: int
  CB_checkInterval :: duration
  CB_stopped :: bool \<comment> \<open>\<open>stopChan\<close> is closed\<close>

definition NewCircuitBreaker :: "nat \<Rightarrow> CircuitBreaker" where
  "NewCircuitBreaker fdLimit =
     \<lparr>CB_state = CircuitNormal, CB_fdLimit = fdLimit, CB_currentFD = 0, CB_warningCount = 0,
      CB_openUntil = 0, CB_checkInterval = 5 * Second, CB_stopped = False\<rparr>"

definition FDWarningRatio :: float64 where "FDWarningRatio = Finite (fl (70 / 100))"
definition FDDangerRatio :: float64 where "FDDangerRatio = Finite (fl (85 / 100))"

definition fd_usage :: "nat \<Rightarrow> nat \<Rightarrow> float64" where
  "fd_usage current limit = fdiv (float64_of current) (float64_of limit)"

definition checkAndUpdate :: "os_error + nat \<Rightarrow> CircuitBreaker \<Rightarrow> CircuitBreaker" where
  \<comment> \<open>the argument is the answer of \<open>GetCurrentFDUsage\<close>\<close>
  "checkAndUpdate reading cb =
     (case reading of
        Inl err \<Rightarrow> cb
      | Inr current \<Rightarrow>
          (let cb = cb\<lparr>CB_currentFD := int current\<rparr>;
               usage = fd_usage current (CB_fdLimit cb)
           in if fge usage FDDangerRatio then cb\<lparr>CB_state := CircuitOpen, CB_warningCount := 0\<rparr>
              else if fge usage FDWarningRatio
              then cb\<lparr>CB_state := CircuitWarning, CB_warningCount := CB_warningCount cb + 1\<rparr>
              else cb\<lparr>CB_state := CircuitNormal, CB_warningCount := 0\<rparr>))"

definition AllowConnection :: "time \<Rightarrow> CircuitBreaker \<Rightarrow> bool" where
  "AllowConnection now cb =
     (if CB_state cb = CircuitOpen then 0 < CB_openUntil cb \<and> CB_openUntil cb < now else True)"

definition CB_Stop :: "CircuitBreaker \<Rightarrow> CircuitBreaker go" where
  "CB_Stop cb = (if CB_stopped cb then Inl CloseOfClosedChannel else Inr (cb\<lparr>CB_stopped := True\<rparr>))"

definition RecordConnection :: "CircuitBreaker \<Rightarrow> CircuitBreaker" where
  "RecordConnection cb = cb"

definition RecordClose :: "CircuitBreaker \<Rightarrow> CircuitBreaker" where
  "RecordClose cb = cb"

definition CB_GetState :: "CircuitBreaker \<Rightarrow> CircuitState" where
  "CB_GetState cb = CB_state cb"

definition CB_GetCurrentFDUsage :: "CircuitBreaker \<Rightarrow> int" where
  "CB_GetCurrentFDUsage cb = CB_currentFD cb"

datatype monitor_event = Tick "os_error + nat" | StopSignal

fun monitorLoop :: "monitor_event list \<Rightarrow> CircuitBreaker \<Rightarrow> CircuitBreaker" where
  \<comment> \<open>the goroutine of \<open>Start\<close>, along the events its \<open>select\<close> takes\<close>
  "monitorLoop [] cb = cb"
| "monitorLoop (Tick reading # es) cb = monitorLoop es (checkAndUpdate reading cb)"
| "monitorLoop (StopSignal # es) cb = cb"

inductive breaker_reachable :: "nat \<Rightarrow> CircuitBreaker \<Rightarrow> bool" for limit where
  new: "breaker_reachable limit (NewCircuitBreaker limit)"
| tick: "breaker_reachable limit cb \<Longrightarrow> breaker_reachable limit (checkAndUpdate reading cb)"
| conn: "breaker_reachable limit cb \<Longrightarrow> breaker_reachable limit (RecordConnection cb)"
| close: "breaker_reachable limit cb \<Longrightarrow> breaker_reachable limit (RecordClose cb)"
| stop: "breaker_reachable limit cb \<Longrightarrow> CB_Stop cb = Inr cb' \<Longrightarrow> breaker_reachable limit cb'"

section \<open>Start-up guard\<close>

definition MinFDLimit :: nat where "MinFDLimit = 4096"
definition DefaultMaxSessions :: int where "DefaultMaxSessions = 2000"

record Guard =
  G_maxFDLimit :: nat
  G_maxSessions :: int

definition NewGuard :: "int \<Rightarrow> Guard" where
  "NewGuard maxSessions = \<lparr>G_maxFDLimit = MinFDLimit, G_maxSessions = maxSessions\<rparr>"

datatype guard_error =
    ErrGetrlimit os_error
  | ErrFDLimitTooLow nat
  | ErrStatfs os_error
  | ErrPreFlight guard_error

definition CheckFDLimit :: "os_error + nat \<Rightarrow> guard_error option" where
  "CheckFDLimit rlimit =
     (case rlimit of
        Inl err \<Rightarrow> Some (ErrGetrlimit err)
      | Inr cur \<Rightarrow> if cur < MinFDLimit then Some (ErrFDLimitTooLow cur) else None)"

record statfs_result =
  Bavail :: u64
  Bsize :: "64 word" \<comment> \<open>an \<open>int64\<close>\<close>

definition low_memory :: "statfs_result \<Rightarrow> bool" where
  \<comment> \<open>the condition of the warning\<close>
  "low_memory st = (let availableMem = Bavail st * Bsize st; minMem = 256 * 1024 * 1024
     in sint availableMem < minMem)"

definition CheckSystemResources ::
    "os_error + nat \<Rightarrow> os_error + statfs_result \<Rightarrow> guard_error option \<times> bool" where
  \<comment> \<open>the error, and whether the warning was logged\<close>
  "CheckSystemResources rlimit fs =
     (case CheckFDLimit rlimit of
        Some err \<Rightarrow> (Some err, False)
      | None \<Rightarrow>
          (case fs of
             Inl err \<Rightarrow> (Some (ErrStatfs err), False)
           | Inr st \<Rightarrow> (None, low_memory st)))"

definition PreFlight :: "os_error + nat \<Rightarrow> os_error + statfs_result \<Rightarrow> guard_error option" where
  "PreFlight rlimit fs =
     (case fst (CheckSystemResources rlimit fs) of
        Some err \<Rightarrow> Some (ErrPreFlight err)
      | None \<Rightarrow> None)"

section \<open>Lemmas\<close>

lemma fge_threshold:
  assumes p: "11 \<le> p" "p < 20" and limit: "0 < limit" "limit \<le> 2 ^ 44" and n: "n < 2 ^ 53"
  shows "fge (fd_usage n limit) (Finite (fl (of_nat p / 20))) \<longleftrightarrow> p * limit \<le> 20 * n"
proof -
  have limit': "limit < 2 ^ 53" using limit(2) by (rule le_less_trans) simp
  define x q :: rat where "x = of_nat n / of_nat limit" and "q = of_nat p / 20"
  have usage: "fd_usage n limit = Finite (fl x)"
    using limit limit' n by (simp add: fd_usage_def float64_of_def fl_of_nat x_def)
  have le: "q \<le> x \<longleftrightarrow> p * limit \<le> 20 * n"
  proof -
    have "q \<le> x \<longleftrightarrow> of_nat p * of_nat limit \<le> (20 * of_nat n :: rat)"
      using limit(1) by (simp add: q_def x_def field_simps)
    also have "\<dots> \<longleftrightarrow> of_nat (p * limit) \<le> (of_nat (20 * n) :: rat)" by simp
    also have "\<dots> \<longleftrightarrow> p * limit \<le> 20 * n" by (simp only: of_nat_le_iff)
    finally show ?thesis .
  qed
  have gap: "x + 1 / 2 ^ 52 \<le> q" if "x < q"
  proof -
    have "20 * n + 1 \<le> p * limit" using that le by (simp add: not_le [symmetric])
    then have "(of_nat (20 * n + 1) :: rat) \<le> of_nat (p * limit)" by (simp only: of_nat_le_iff)
    then have "x + 1 / (20 * of_nat limit) \<le> q" using limit(1) by (simp add: x_def q_def field_simps)
    moreover have "(1 :: rat) / 2 ^ 52 \<le> 1 / (20 * of_nat limit)"
    proof -
      have "(of_nat (20 * limit) :: rat) \<le> of_nat (2 ^ 52)"
        unfolding of_nat_le_iff using limit(2) by simp
      then show ?thesis using limit(1) by (intro divide_left_mono) simp_all
    qed
    ultimately show ?thesis by linarith
  qed
  have "(of_nat 11 :: rat) \<le> of_nat p" "(of_nat p :: rat) < of_nat 20"
    using p unfolding of_nat_le_iff of_nat_less_iff by simp_all
  then have "1 / 2 + 1 / 2 ^ 52 \<le> q" "q < 1" by (simp_all add: q_def field_simps)
  moreover have "0 \<le> x" by (simp add: x_def)
  ultimately have "fl q \<le> fl x \<longleftrightarrow> q \<le> x" using gap by (intro fl_threshold)
  then show ?thesis unfolding usage le [symmetric] by (simp add: q_def)
qed

lemma thresholds:
  assumes "0 < limit" "limit \<le> 2 ^ 44" "n < 2 ^ 53"
  shows "fge (fd_usage n limit) FDDangerRatio \<longleftrightarrow> 17 * limit \<le> 20 * n"
    and "fge (fd_usage n limit) FDWarningRatio \<longleftrightarrow> 14 * limit \<le> 20 * n"
proof -
  have "(85 :: rat) / 100 = of_nat 17 / 20" "(70 :: rat) / 100 = of_nat 14 / 20" by simp_all
  then show "fge (fd_usage n limit) FDDangerRatio \<longleftrightarrow> 17 * limit \<le> 20 * n"
    "fge (fd_usage n limit) FDWarningRatio \<longleftrightarrow> 14 * limit \<le> 20 * n"
    unfolding FDDangerRatio_def FDWarningRatio_def
    using fge_threshold [of 17 limit n] fge_threshold [of 14 limit n] assms by simp_all
qed

lemma limit_reachable: "breaker_reachable limit cb \<Longrightarrow> CB_fdLimit cb = limit \<and> CB_openUntil cb = 0"
  by (induction rule: breaker_reachable.induct)
    (auto simp: NewCircuitBreaker_def checkAndUpdate_def RecordConnection_def RecordClose_def
      CB_Stop_def Let_def split: sum.splits if_splits)

lemma monitorLoop_reachable: "breaker_reachable limit cb \<Longrightarrow> breaker_reachable limit (monitorLoop es cb)"
  by (induction es cb rule: monitorLoop.induct) (auto intro: breaker_reachable.tick)

definition state_for :: "nat \<Rightarrow> nat \<Rightarrow> CircuitState" where
  \<comment> \<open>the documented levels: danger from 85%, warning from 70%\<close>
  "state_for limit n =
     (if 17 * limit \<le> 20 * n then CircuitOpen
      else if 14 * limit \<le> 20 * n then CircuitWarning else CircuitNormal)"

lemma checkAndUpdate_state:
  "0 < CB_fdLimit cb \<Longrightarrow> CB_fdLimit cb \<le> 2 ^ 44 \<Longrightarrow> n < 2 ^ 53 \<Longrightarrow>
    CB_state (checkAndUpdate (Inr n) cb) = state_for (CB_fdLimit cb) n"
  by (simp add: checkAndUpdate_def Let_def thresholds state_for_def)

lemma state_for_mono: "n \<le> n' \<Longrightarrow> state_for limit n \<le> state_for limit n'"
  by (auto simp: state_for_def less_eq_CircuitState_def)

subsection \<open>The breaker as a follower of the last reading\<close>

datatype breaker_event = Reading "os_error + nat" | Admit time

fun breaker_step :: "breaker_event \<Rightarrow> CircuitBreaker \<Rightarrow> bool option \<times> CircuitBreaker" where
  "breaker_step (Reading r) cb = (None, checkAndUpdate r cb)"
| "breaker_step (Admit now) cb = (Some (AllowConnection now cb), cb)"

fun last_step :: "nat \<Rightarrow> breaker_event \<Rightarrow> nat \<Rightarrow> bool option \<times> nat" where
  \<comment> \<open>the reference keeps the last successful reading only\<close>
  "last_step limit (Reading (Inl err)) n = (None, n)"
| "last_step limit (Reading (Inr n')) n = (None, n')"
| "last_step limit (Admit now) n = (Some (20 * n < 17 * limit), n)"

fun reading_ok :: "breaker_event \<Rightarrow> nat \<Rightarrow> bool" where
  \<comment> \<open>a process has fewer than \<open>2 ^ 53\<close> open files\<close>
  "reading_ok (Reading (Inr n')) n \<longleftrightarrow> n' < 2 ^ 53"
| "reading_ok _ n \<longleftrightarrow> True"

definition breaker_rel :: "nat \<Rightarrow> CircuitBreaker \<Rightarrow> nat \<Rightarrow> bool" where
  "breaker_rel limit cb n \<longleftrightarrow> 0 < limit \<and> limit \<le> 2 ^ 44 \<and> CB_fdLimit cb = limit \<and> CB_openUntil cb = 0 \<and>
     CB_state cb = state_for limit n"

lemma breaker_rel_new: "0 < limit \<Longrightarrow> limit \<le> 2 ^ 44 \<Longrightarrow> breaker_rel limit (NewCircuitBreaker limit) 0"
  by (simp add: breaker_rel_def NewCircuitBreaker_def state_for_def)

lemma checkAndUpdate_fields [simp]:
  "CB_fdLimit (checkAndUpdate r cb) = CB_fdLimit cb" "CB_openUntil (checkAndUpdate r cb) = CB_openUntil cb"
  by (auto simp: checkAndUpdate_def Let_def split: sum.splits)

interpretation breaker: lockstep breaker_step "last_step limit" reading_ok "breaker_rel limit"
proof
  fix s h e
  assume rel: "breaker_rel limit s h" and ok: "reading_ok e h"
  show "fst (breaker_step e s) = fst (last_step limit e h)"
    using rel by (cases "(limit, e, h)" rule: last_step.cases)
      (auto simp: AllowConnection_def breaker_rel_def state_for_def not_le)
  show "breaker_rel limit (snd (breaker_step e s)) (snd (last_step limit e h))"
    using rel ok checkAndUpdate_state [of s] by (cases "(limit, e, h)" rule: last_step.cases)
      (auto simp: breaker_rel_def, simp_all add: checkAndUpdate_def)
qed

section \<open>Properties\<close>

text \<open>The descriptor count is exact. Reading the directory in batches of a hundred counts every
  entry, whatever their number, multiples of a hundred included.\<close>

theorem fd_usage_counts_all: "GetCurrentFDUsage (Inr (dir_reads names)) = Inr (length names)"
  by (simp add: GetCurrentFDUsage_def count_dir_reads)

text \<open>C21: the levels of the breaker are exact in spite of floating-point division. For a limit up to
  \<open>2 ^ 44\<close>, a reading of \<open>n\<close> descriptors opens the breaker exactly when \<open>n\<close> is at least 85% of the limit,
  puts it in warning exactly from 70% on, and closes it below; more descriptors never lower the level,
  and the warning counter counts the warnings since the last other level.\<close>

theorem breaker_levels:
  assumes "0 < CB_fdLimit cb" "CB_fdLimit cb \<le> 2 ^ 44" "n \<le> n'" "n' < 2 ^ 53"
  shows "CB_GetState (checkAndUpdate (Inr n) cb) =
      (if 17 * CB_fdLimit cb \<le> 20 * n then CircuitOpen
       else if 14 * CB_fdLimit cb \<le> 20 * n then CircuitWarning else CircuitNormal) \<and>
    CB_warningCount (checkAndUpdate (Inr n) cb) =
      (if CB_GetState (checkAndUpdate (Inr n) cb) = CircuitWarning then CB_warningCount cb + 1 else 0) \<and>
    CB_GetState (checkAndUpdate (Inr n) cb) \<le> CB_GetState (checkAndUpdate (Inr n') cb) \<and>
    CB_GetCurrentFDUsage (checkAndUpdate (Inr n) cb) = int n"
proof -
  have n: "n < 2 ^ 53" using assms(3,4) by (rule le_less_trans)
  have "CB_warningCount (checkAndUpdate (Inr n) cb) =
      (if state_for (CB_fdLimit cb) n = CircuitWarning then CB_warningCount cb + 1 else 0)"
    "CB_currentFD (checkAndUpdate (Inr n) cb) = int n"
    using thresholds [OF assms(1,2) n] by (simp_all add: checkAndUpdate_def Let_def state_for_def)
  then show ?thesis
    using assms n by (simp add: CB_GetState_def CB_GetCurrentFDUsage_def checkAndUpdate_state state_for_mono
        flip: state_for_def)
qed

theorem breaker_levels_witness:
  "CB_GetState (checkAndUpdate (Inr 870) (NewCircuitBreaker 1024)) = CircuitWarning \<and>
   CB_GetState (checkAndUpdate (Inr 871) (NewCircuitBreaker 1024)) = CircuitOpen"
  using breaker_levels [of "NewCircuitBreaker 1024" 870 871]
    breaker_levels [of "NewCircuitBreaker 1024" 871 871]
  by (simp add: NewCircuitBreaker_def)

text \<open>C12: admission follows the last successful reading. Whatever the readings, failures to read and
  connection attempts, the breaker admits a connection exactly when the last successful count was below
  85% of the limit (or none has succeeded yet).\<close>

theorem breaker_follows_last_reading:
  assumes "0 < limit" "limit \<le> 2 ^ 44" "run_allowed reading_ok (last_step limit) es 0"
  shows "fst (run_outputs breaker_step es (NewCircuitBreaker limit)) =
    fst (run_outputs (last_step limit) es 0)"
  using breaker_rel_new [OF assms(1,2)] assms(3) by (rule breaker.run_same_outputs)

theorem breaker_follows_last_reading_witness:
  "fst (run_outputs breaker_step
     [Admit 1, Reading (Inr 900), Admit 2, Reading (Inl ''EMFILE''), Admit 9, Reading (Inr 800), Admit 10]
     (NewCircuitBreaker 1024)) =
   [Some True, None, Some False, None, Some False, None, Some True]"
  using breaker_follows_last_reading [of 1024
     "[Admit 1, Reading (Inr 900), Admit 2, Reading (Inl ''EMFILE''), Admit 9, Reading (Inr 800), Admit 10]"]
  by (simp del: breaker_step.simps)

text \<open>The half-open state does not exist. No operation ever sets \<open>openUntil\<close>, so in every reachable
  state an open breaker refuses connections at every instant, however long it has been open.\<close>

theorem breaker_never_half_open:
  assumes "breaker_reachable limit cb"
  shows "AllowConnection now cb \<longleftrightarrow> CB_state cb \<noteq> CircuitOpen"
  using limit_reachable [OF assms] by (simp add: AllowConnection_def)

theorem breaker_never_half_open_witness:
  "\<not> AllowConnection (10 ^ 30) (monitorLoop [Tick (Inr 1000)] (NewCircuitBreaker 1024))"
proof -
  have "CB_state (monitorLoop [Tick (Inr 1000)] (NewCircuitBreaker 1024)) = CircuitOpen"
    using checkAndUpdate_state [of "NewCircuitBreaker 1024" 1000]
    by (simp add: state_for_def NewCircuitBreaker_def)
  then show ?thesis
    using breaker_never_half_open [OF monitorLoop_reachable [OF breaker_reachable.new]] by metis
qed

text \<open>The start-up check tests the descriptor limit and nothing else. It passes exactly when the
  limit is read, is at least 4096 and \<open>statfs\<close> answers; what \<open>statfs\<close> answers (the free space of the root
  file system, meant as the available memory) never fails it.\<close>

theorem preflight_contract:
  "(PreFlight rlimit fs = None \<longleftrightarrow> (\<exists>cur st. rlimit = Inr cur \<and> 4096 \<le> cur \<and> fs = Inr st)) \<and>
   PreFlight rlimit (Inr st) = PreFlight rlimit (Inr st') \<and>
   (PreFlight (Inr cur) (Inr st) = Some (ErrPreFlight (ErrFDLimitTooLow cur)) \<longleftrightarrow> cur < 4096)"
  by (auto simp: PreFlight_def CheckSystemResources_def CheckFDLimit_def MinFDLimit_def
      split: sum.splits option.splits if_splits)

end
