(* ===== verification/Pumps.thy ===== *)
theory Pumps
  imports GoRuntime "HOL-Library.Sublist"
begin

text \<open>
  \<open>internal/server/conn.go\<close>: a connection and its two goroutines. \<open>ReadPump\<close> and \<open>WritePump\<close> are
  threads with a program counter that share the channel \<open>Send\<close> and the WebSocket; a step is one
  blocking operation of either, or a broadcast of the hub. The WebSocket (gorilla) is third-party
  code: its results are part of the events, and the only thing assumed of it is that nothing can be
  read or written once this side has closed it.
\<close>

section \<open>Connections\<close>

type_synonym bytes = "byte list"

record Conn =
  K_ID :: u32
  K_Send :: "bytes chan"

definition NewConn :: "u32 \<Rightarrow> Conn" where
  "NewConn sid = \<lparr>K_ID = sid, K_Send = make_chan 256\<rparr>"

datatype reader_pc =
    RLoop \<comment> \<open>in \<open>ReadMessage\<close>\<close>
  | RHandler bytes \<comment> \<open>the handler is at \<open>conn.Send <- output\<close>\<close>
  | RDeferWS \<comment> \<open>deferred: about to close the WebSocket\<close>
  | RDeferSend \<comment> \<open>deferred: about to close \<open>Send\<close>\<close>
  | RDone

datatype writer_pc =
    WLoop \<comment> \<open>in the \<open>select\<close>\<close>
  | WDeferWS
  | WDeferSend
  | WDone

record pumps =
  P_conn :: Conn
  P_ws_open :: bool
  P_reader :: reader_pc
  P_writer :: writer_pc
  P_queued :: "bytes list" \<comment> \<open>history: everything ever put on \<open>Send\<close>\<close>
  P_written :: "bytes list" \<comment> \<open>history: the binary messages written to the WebSocket\<close>

definition start_pumps :: "Conn \<Rightarrow> pumps" where
  "start_pumps c = \<lparr>P_conn = c, P_ws_open = True, P_reader = RLoop, P_writer = WLoop,
     P_queued = [], P_written = []\<rparr>"

datatype pump_event =
    ReadOk bytes \<comment> \<open>\<open>ReadMessage\<close> returns a message\<close>
  | ReadErr
  | HandlerSend
  | ReaderCloseWS
  | ReaderCloseSend
  | WriterRecv bool \<comment> \<open>the \<open>select\<close> takes \<open>c.Send\<close>; does the write succeed?\<close>
  | WriterTick bool \<comment> \<open>the \<open>select\<close> takes the ticker; does the ping succeed?\<close>
  | WriterCloseWS
  | WriterCloseSend
  | HubSend bytes \<comment> \<open>\<open>Hub.Broadcast\<close> offers data\<close>

definition set_send :: "pumps \<Rightarrow> bytes chan \<Rightarrow> pumps" where
  "set_send s c = s\<lparr>P_conn := (P_conn s)\<lparr>K_Send := c\<rparr>\<rparr>"

abbreviation send_of :: "pumps \<Rightarrow> bytes chan" where
  "send_of s \<equiv> K_Send (P_conn s)"

definition pump_step :: "(bytes \<Rightarrow> bytes) \<Rightarrow> pump_event \<Rightarrow> pumps \<Rightarrow> pumps option go" where
  \<comment> \<open>\<open>Inr None\<close>: the event cannot happen in this state; \<open>handler\<close> is what the handler sends back\<close>
  "pump_step handler e s =
     (case e of
        ReadOk msg \<Rightarrow>
          Inr (if P_reader s = RLoop \<and> P_ws_open s
               then Some (s\<lparr>P_reader := RHandler (handler msg)\<rparr>) else None)
      | ReadErr \<Rightarrow> Inr (if P_reader s = RLoop then Some (s\<lparr>P_reader := RDeferWS\<rparr>) else None)
      | HandlerSend \<Rightarrow>
          (case P_reader s of
             RHandler output \<Rightarrow>
               (case chan_send (send_of s) output of
                  Inl p \<Rightarrow> Inl p
                | Inr None \<Rightarrow> Inr None
                | Inr (Some c) \<Rightarrow>
                    Inr (Some ((set_send s c)\<lparr>P_reader := RLoop, P_queued := P_queued s @ [output]\<rparr>)))
           | _ \<Rightarrow> Inr None)
      | ReaderCloseWS \<Rightarrow>
          Inr (if P_reader s = RDeferWS then Some (s\<lparr>P_ws_open := False, P_reader := RDeferSend\<rparr>) else None)
      | ReaderCloseSend \<Rightarrow>
          (if P_reader s = RDeferSend
           then (case chan_close (send_of s) of
                   Inl p \<Rightarrow> Inl p
                 | Inr c \<Rightarrow> Inr (Some ((set_send s c)\<lparr>P_reader := RDone\<rparr>)))
           else Inr None)
      | WriterRecv ok \<Rightarrow>
          (if P_writer s = WLoop
           then (case chan_recv (send_of s) of
                   None \<Rightarrow> Inr None
                 | Some (None, c) \<Rightarrow> Inr (Some (s\<lparr>P_writer := WDeferWS\<rparr>))
                 | Some (Some msg, c) \<Rightarrow>
                     if \<not> ok then Inr (Some ((set_send s c)\<lparr>P_writer := WDeferWS\<rparr>))
                     else if P_ws_open s
                     then Inr (Some ((set_send s c)\<lparr>P_written := P_written s @ [msg]\<rparr>))
                     else Inr None)
           else Inr None)
      | WriterTick ok \<Rightarrow>
          Inr (if P_writer s = WLoop \<and> (ok \<longrightarrow> P_ws_open s)
               then Some (if ok then s else s\<lparr>P_writer := WDeferWS\<rparr>) else None)
      | WriterCloseWS \<Rightarrow>
          Inr (if P_writer s = WDeferWS then Some (s\<lparr>P_ws_open := False, P_writer := WDeferSend\<rparr>) else None)
      | WriterCloseSend \<Rightarrow>
          (if P_writer s = WDeferSend
           then (case chan_close (send_of s) of
                   Inl p \<Rightarrow> Inl p
                 | Inr c \<Rightarrow> Inr (Some ((set_send s c)\<lparr>P_writer := WDone\<rparr>)))
           else Inr None)
      | HubSend data \<Rightarrow>
          (case try_send (send_of s) data of
             Inl p \<Rightarrow> Inl p
           | Inr (sent, c) \<Rightarrow>
               Inr (Some ((set_send s c)\<lparr>P_queued := P_queued s @ (if sent then [data] else [])\<rparr>))))"

fun pump_run :: "(bytes \<Rightarrow> bytes) \<Rightarrow> pump_event list \<Rightarrow> pumps \<Rightarrow> pumps go" where
  \<comment> \<open>a schedule; events that cannot happen are passed over\<close>
  "pump_run handler [] s = Inr s"
| "pump_run handler (e # es) s =
     (case pump_step handler e s of
        Inl p \<Rightarrow> Inl p
      | Inr None \<Rightarrow> pump_run handler es s
      | Inr (Some s') \<Rightarrow> pump_run handler es s')"

inductive pump_reachable :: "(bytes \<Rightarrow> bytes) \<Rightarrow> pumps \<Rightarrow> bool" for handler where
  start: "pump_reachable handler (start_pumps (NewConn sid))"
| step: "pump_reachable handler s \<Longrightarrow> pump_step handler e s = Inr (Some s') \<Longrightarrow> pump_reachable handler s'"

section \<open>The invariant\<close>

definition pumps_inv :: "pumps \<Rightarrow> bool" where
  "pumps_inv s \<longleftrightarrow>
     (ch_closed (send_of s) \<longleftrightarrow> P_reader s = RDone \<or> P_writer s = WDone) \<and>
     \<not> (P_reader s = RDone \<and> P_writer s = WDone) \<and>
     (P_ws_open s \<longleftrightarrow> P_reader s \<notin> {RDeferSend, RDone} \<and> P_writer s \<notin> {WDeferSend, WDone}) \<and>
     ch_cap (send_of s) = 256 \<and> length (ch_buf (send_of s)) \<le> 256 \<and>
     (P_writer s = WLoop \<longrightarrow> P_queued s = P_written s @ ch_buf (send_of s)) \<and>
     prefix (P_written s) (P_queued s)"

lemma set_send_simps [simp]:
  "send_of (set_send s c) = c" "P_reader (set_send s c) = P_reader s"
  "P_writer (set_send s c) = P_writer s" "P_ws_open (set_send s c) = P_ws_open s"
  "P_queued (set_send s c) = P_queued s" "P_written (set_send s c) = P_written s"
  by (simp_all add: set_send_def)

lemma pumps_inv_start: "pumps_inv (start_pumps (NewConn sid))"
  by (simp add: pumps_inv_def start_pumps_def NewConn_def make_chan_def)

lemma prefix_snoc_mono: "prefix xs ys \<Longrightarrow> prefix xs (ys @ zs)"
  by (rule prefix_prefix)

lemma pumps_inv_reader:
  assumes "pumps_inv s" "pump_step handler e s = Inr (Some s')"
    and "e = ReadErr \<or> e = HandlerSend \<or> e = ReaderCloseWS \<or> e = ReaderCloseSend \<or> (\<exists>msg. e = ReadOk msg)"
  shows "pumps_inv s'"
  using assms
  by (elim disjE exE)
    (auto simp: pump_step_def pumps_inv_def chan_send_def chan_close_def prefix_snoc_mono
      split: if_splits reader_pc.splits)

lemma pumps_inv_writer:
  assumes "pumps_inv s" "pump_step handler e s = Inr (Some s')"
    and "(\<exists>ok. e = WriterRecv ok) \<or> (\<exists>ok. e = WriterTick ok) \<or> e = WriterCloseWS \<or> e = WriterCloseSend \<or>
      (\<exists>data. e = HubSend data)"
  shows "pumps_inv s'"
  using assms
  by (elim disjE exE)
    (auto simp: pump_step_def pumps_inv_def chan_recv_def chan_close_def try_send_def prefix_snoc_mono
      split: if_splits list.splits)

lemma pumps_inv_step: "pumps_inv s \<Longrightarrow> pump_step handler e s = Inr (Some s') \<Longrightarrow> pumps_inv s'"
  by (cases e) (auto intro: pumps_inv_reader pumps_inv_writer)

lemma pump_reachable_inv: "pump_reachable handler s \<Longrightarrow> pumps_inv s"
  by (induction rule: pump_reachable.induct) (auto intro: pumps_inv_start pumps_inv_step)

lemma pump_run_reachable:
  "pump_reachable handler s \<Longrightarrow> pump_run handler es s = Inr s' \<Longrightarrow> pump_reachable handler s'"
  by (induction handler es s rule: pump_run.induct)
    (auto split: sum.splits option.splits intro: pump_reachable.step)

section \<open>The end of a connection\<close>

definition pump_rank :: "pumps \<Rightarrow> nat" where
  \<comment> \<open>how far the pump that still runs is from the end of its deferred function\<close>
  "pump_rank s =
     (case P_reader s of RHandler _ \<Rightarrow> 3 | RLoop \<Rightarrow> 3 | RDeferWS \<Rightarrow> 2 | RDeferSend \<Rightarrow> 1 | RDone \<Rightarrow> 0) +
     (case P_writer s of WLoop \<Rightarrow> 3 | WDeferWS \<Rightarrow> 2 | WDeferSend \<Rightarrow> 1 | WDone \<Rightarrow> 0)"

lemma half_closed_progress:
  assumes "pumps_inv s" "P_reader s = RDone \<or> P_writer s = WDone"
  shows "\<exists>e. pump_step handler e s \<noteq> Inr None"
proof (cases "P_reader s = RDone")
  case True
  then have "P_writer s \<noteq> WDone" using assms(1) by (simp add: pumps_inv_def)
  then consider "P_writer s = WLoop" | "P_writer s = WDeferWS" | "P_writer s = WDeferSend"
    by (cases "P_writer s") auto
  then show ?thesis
  proof cases
    case 1
    then show ?thesis by (intro exI [of _ "WriterTick False"]) (simp add: pump_step_def)
  next
    case 2
    then show ?thesis by (intro exI [of _ WriterCloseWS]) (simp add: pump_step_def)
  next
    case 3
    then show ?thesis
      by (intro exI [of _ WriterCloseSend]) (simp add: pump_step_def split: sum.split)
  qed
next
  case False
  then have "ch_closed (send_of s)" "P_reader s \<noteq> RDone" using assms by (auto simp: pumps_inv_def)
  then show ?thesis
  proof (cases "P_reader s")
    case RLoop
    then show ?thesis by (intro exI [of _ ReadErr]) (simp add: pump_step_def)
  next
    case (RHandler m)
    then show ?thesis using \<open>ch_closed (send_of s)\<close>
      by (intro exI [of _ HandlerSend]) (simp add: pump_step_def chan_send_def)
  next
    case RDeferWS
    then show ?thesis by (intro exI [of _ ReaderCloseWS]) (simp add: pump_step_def)
  next
    case RDeferSend
    then show ?thesis
      by (intro exI [of _ ReaderCloseSend]) (simp add: pump_step_def split: sum.split)
  qed simp
qed

lemma half_closed_descends:
  assumes "pumps_inv s" "P_reader s = RDone \<or> P_writer s = WDone"
    and "pump_step handler e s = Inr (Some s')"
  shows "pump_rank s' < pump_rank s"
proof -
  have closed: "ch_closed (send_of s)" and ws: "\<not> P_ws_open s"
    using assms(1,2) by (auto simp: pumps_inv_def)
  have one: "\<not> (P_reader s = RDone \<and> P_writer s = WDone)" using assms(1) by (simp add: pumps_inv_def)
  show ?thesis
    using assms(3) closed ws one
    by (cases e)
      (auto simp: pump_step_def pump_rank_def chan_send_def chan_recv_def chan_close_def try_send_def
        split: if_splits reader_pc.splits list.splits)
qed

section \<open>Properties\<close>



text \<open>An ordinary disconnection of the client, from any reachable state in which both pumps run
  their loops: the reader sees the read error and its deferred function closes \<open>Send\<close>; the writer then
  fails to write, or finds the channel closed, and its own deferred function closes \<open>Send\<close> again, which
  panics.\<close>

theorem disconnect_panics:
  assumes "pump_reachable handler s" "P_reader s = RLoop" "P_writer s = WLoop"
  shows "pump_run handler [ReadErr, ReaderCloseWS, ReaderCloseSend, WriterRecv False, WriterCloseWS,
    WriterCloseSend] s = Inl CloseOfClosedChannel"
proof -
  have "\<not> ch_closed (send_of s)"
    using pump_reachable_inv [OF assms(1)] assms(2,3) by (simp add: pumps_inv_def)
  then show ?thesis
    using assms(2,3)
    by (cases "ch_buf (send_of s)") (simp_all add: pump_step_def chan_close_def chan_recv_def)
qed

theorem disconnect_panics_witness:
  "pump_run (\<lambda>m. m) [ReadErr, ReaderCloseWS, ReaderCloseSend, WriterRecv False, WriterCloseWS,
    WriterCloseSend] (start_pumps (NewConn 0)) = Inl CloseOfClosedChannel"
  by (rule disconnect_panics [OF pump_reachable.start]) (simp_all add: start_pumps_def)

text \<open>C28: while the writer is in its loop the connection is a faithful queue: what has been written to
  the WebSocket, followed by what waits in \<open>Send\<close>, is exactly what the handler and the hub have put on
  the channel, in order; at most 256 messages wait; and what has been written stays a prefix of it
  after the writer has left its loop.\<close>

theorem pump_fifo:
  assumes "pump_reachable handler s"
  shows "(P_writer s = WLoop \<longrightarrow> P_queued s = P_written s @ ch_buf (K_Send (P_conn s))) \<and>
    length (ch_buf (K_Send (P_conn s))) \<le> 256 \<and> prefix (P_written s) (P_queued s)"
  using pump_reachable_inv [OF assms] by (auto simp: pumps_inv_def)

theorem pump_fifo_witness:
  "\<exists>s. pump_run (\<lambda>m. m) [ReadOk [1], HandlerSend, HubSend [2], WriterRecv True] (start_pumps (NewConn 0)) = Inr s \<and>
     P_queued s = [[1], [2]] \<and> P_queued s = P_written s @ [[2]]"
proof -
  obtain s where run: "pump_run (\<lambda>m. m) [ReadOk [1], HandlerSend, HubSend [2], WriterRecv True]
      (start_pumps (NewConn 0)) = Inr s"
    and s: "P_queued s = [[1], [2]]" "P_writer s = WLoop" "ch_buf (K_Send (P_conn s)) = [[2]]"
    by (simp add: pump_step_def start_pumps_def NewConn_def make_chan_def chan_send_def try_send_def
        chan_recv_def set_send_def)
  have "pump_reachable (\<lambda>m. m) s"
    using pump_run_reachable [OF pump_reachable.start run] .
  from pump_fifo [OF this] run s show ?thesis by auto
qed

end
