(* ===== verification/Hub.thy ===== *)
theory Hub
  imports Pumps Risk RateLimit Breaker Session
begin

text \<open>
  \<open>internal/server/server.go\<close>: the hub and its loop, the broadcast, the risk check on the input of
  a connection, the client address, and the WebSocket endpoint \<open>HandleWS\<close>. Connections are shared
  pointers, so they live in a heap. The upgrade of the HTTP request (gorilla) is an argument, as are
  the clock readings. \<open>Hub.Run\<close> takes a connection off the unbuffered \<open>Register\<close> channel while
  \<open>HandleWS\<close> hands it over; the model performs the registration at that moment.
\<close>

section \<open>The hub\<close>

type_synonym conn_ptr = nat

record Hub =
  H_IDGen :: u32
  H_ConnMap :: "(u32, conn_ptr) sync_map"
  H_SessionManager :: "Manager option"
  H_ReconnectHandler :: bool \<comment> \<open>not nil; it holds the session manager\<close>
  H_RateLimiter :: "RateLimiter option"
  H_CircuitBreaker :: "CircuitBreaker option"

record gateway =
  V_hub :: Hub
  V_conns :: "conn_ptr \<Rightarrow> Conn"
  V_next :: conn_ptr \<comment> \<open>the next free address\<close>

definition NewHub :: Hub where
  "NewHub = \<lparr>H_IDGen = 0, H_ConnMap = [], H_SessionManager = None, H_ReconnectHandler = False,
     H_RateLimiter = None, H_CircuitBreaker = None\<rparr>"

definition InitResourceGuard :: "nat \<Rightarrow> Hub \<Rightarrow> Hub" where
  "InitResourceGuard fdLimit h =
     h\<lparr>H_RateLimiter := Some (NewRateLimiter (1 * Minute) 100),
       H_CircuitBreaker := Some (NewCircuitBreaker fdLimit)\<rparr>"

definition SetSessionManager :: "Manager \<Rightarrow> Hub \<Rightarrow> Hub" where
  "SetSessionManager mgr h = h\<lparr>H_SessionManager := Some mgr, H_ReconnectHandler := True\<rparr>"

datatype hub_event = Register conn_ptr | Unregister conn_ptr

definition set_conn :: "conn_ptr \<Rightarrow> Conn \<Rightarrow> gateway \<Rightarrow> gateway" where
  "set_conn p c g = g\<lparr>V_conns := (V_conns g)(p := c)\<rparr>"

fun hub_step :: "hub_event \<Rightarrow> gateway \<Rightarrow> gateway go" where
  \<comment> \<open>one round of the \<open>select\<close> in \<open>Hub.Run\<close>\<close>
  "hub_step (Register p) g =
     (let h = V_hub g; i = H_IDGen h + 1;
          g = set_conn p ((V_conns g p)\<lparr>K_ID := i\<rparr>) g
      in Inr (g\<lparr>V_hub := h\<lparr>H_IDGen := i, H_ConnMap := sm_store (K_ID (V_conns g p)) p (H_ConnMap h)\<rparr>\<rparr>))"
| "hub_step (Unregister p) g =
     (let h = V_hub g; conn = V_conns g p;
          g = g\<lparr>V_hub := h\<lparr>H_ConnMap := sm_delete (K_ID conn) (H_ConnMap h)\<rparr>\<rparr>
      in case chan_close (K_Send conn) of
           Inl e \<Rightarrow> Inl e
         | Inr c \<Rightarrow> Inr (set_conn p (conn\<lparr>K_Send := c\<rparr>) g))"

fun Hub_Run :: "hub_event list \<Rightarrow> gateway \<Rightarrow> gateway go" where
  "Hub_Run [] g = Inr g"
| "Hub_Run (e # es) g = (case hub_step e g of Inl p \<Rightarrow> Inl p | Inr g' \<Rightarrow> Hub_Run es g')"

fun broadcast_range :: "(u32, conn_ptr) sync_map \<Rightarrow> bytes \<Rightarrow> gateway \<Rightarrow> gateway go" where
  \<comment> \<open>the \<open>Range\<close> of \<open>Hub.Broadcast\<close>; its callback always returns true\<close>
  "broadcast_range [] data g = Inr g"
| "broadcast_range ((k, p) # m) data g =
     (case try_send (K_Send (V_conns g p)) data of
        Inl e \<Rightarrow> Inl e
      | Inr (sent, c) \<Rightarrow> broadcast_range m data (set_conn p ((V_conns g p)\<lparr>K_Send := c\<rparr>) g))"

definition Hub_Broadcast :: "bytes \<Rightarrow> gateway \<Rightarrow> gateway go" where
  "Hub_Broadcast data g = broadcast_range (H_ConnMap (V_hub g)) data g"

section \<open>Input\<close>

definition riskEngine :: Engine where
  \<comment> \<open>the package variable, after \<open>init\<close>, which drops the error\<close>
  "riskEngine = fst (AddDefaultRules NewEngine)"

definition handleInput :: "Engine \<Rightarrow> u32 \<Rightarrow> bytes \<Rightarrow> bool \<times> bytes" where
  "handleInput engine sessionID data =
     (let command = to_string data; (blocked, rule) = CheckAndBlock engine command
      in if blocked then (False, to_bytes (GetBlockMessage rule))
         else (let (confirm, rule) = CheckAndConfirm engine command
               in if confirm then (True, to_bytes (GetConfirmMessage rule)) else (True, data)))"

section \<open>The client's address\<close>

record Request =
  Q_XForwardedFor :: string \<comment> \<open>the empty string when the header is absent\<close>
  Q_XRealIP :: string
  Q_RemoteAddr :: string
  Q_sessionId :: string \<comment> \<open>the query parameter\<close>

definition is_space :: "rune \<Rightarrow> bool" where
  \<comment> \<open>\<open>unicode.IsSpace\<close>\<close>
  "is_space r \<longleftrightarrow> (9 \<le> r \<and> r \<le> 13) \<or> r = 32 \<or> r = 133 \<or> r = 160 \<or> r = 5760 \<or>
     (8192 \<le> r \<and> r \<le> 8202) \<or> r = 8232 \<or> r = 8233 \<or> r = 8239 \<or> r = 8287 \<or> r = 12288"

definition TrimSpace :: "string \<Rightarrow> string" where
  "TrimSpace s =
     (let sp = (\<lambda>g. is_space (fst g)); gs = dropWhile sp (glyphs s)
      in bytes_of (rev (dropWhile sp (rev gs))))"

definition up_to :: "char \<Rightarrow> string \<Rightarrow> string" where
  \<comment> \<open>\<open>if idx := strings.Index(s, sep); idx != -1 { s = s[:idx] }\<close> for a separator of one byte\<close>
  "up_to sep s = takeWhile (\<lambda>c. c \<noteq> sep) s"

definition extractIP :: "Request \<Rightarrow> string" where
  "extractIP r =
     (if Q_XForwardedFor r \<noteq> [] then TrimSpace (up_to CHR '','' (Q_XForwardedFor r))
      else if Q_XRealIP r \<noteq> [] then Q_XRealIP r
      else up_to CHR '':'' (Q_RemoteAddr r))"

section \<open>The endpoint\<close>

definition Sscanf_u32 :: "string \<Rightarrow> u32 option" where
  \<comment> \<open>\<open>fmt.Sscanf(s, "%d", &v)\<close> into a \<open>uint32\<close>: leading space but no newline, digits, no overflow;
    what follows is ignored\<close>
  "Sscanf_u32 s =
     (let gs = dropWhile (\<lambda>g. is_space (fst g) \<and> fst g \<noteq> 10) (glyphs s);
          ds = takeWhile (\<lambda>r. 48 \<le> r \<and> r \<le> 57) (map fst gs);
          n = foldl (\<lambda>n d. n * 10 + (d - 48)) 0 ds
      in if ds = [] \<or> 2 ^ 32 \<le> n then None else Some (of_nat n))"

datatype handler_kind = EchoHandler | InputHandler

datatype ws_outcome =
    HttpError nat
  | UpgradeFailed
  | Serving conn_ptr handler_kind \<comment> \<open>the pumps run on this connection\<close>

record ws_env =
  W_now :: time \<comment> \<open>the clock at the rate limiter\<close>
  W_breaker_now :: time
  W_upgrade :: bool \<comment> \<open>does \<open>upgrader.Upgrade\<close> succeed?\<close>
  W_since :: time \<comment> \<open>the clock in \<open>Attach\<close>\<close>
  W_attach :: time

definition ws_limit :: "ws_env \<Rightarrow> string \<Rightarrow> gateway \<Rightarrow> bool \<times> gateway" where
  \<comment> \<open>\<open>RateLimiter != nil && !RateLimiter.Allow(ip)\<close>, negated\<close>
  "ws_limit env ip g =
     (case H_RateLimiter (V_hub g) of
        None \<Rightarrow> (True, g)
      | Some rl \<Rightarrow> (let (b, rl') = Allow (W_now env) ip rl
                    in (b, g\<lparr>V_hub := (V_hub g)\<lparr>H_RateLimiter := Some rl'\<rparr>\<rparr>)))"

definition ws_circuit :: "ws_env \<Rightarrow> gateway \<Rightarrow> bool" where
  "ws_circuit env g =
     (case H_CircuitBreaker (V_hub g) of None \<Rightarrow> True | Some cb \<Rightarrow> AllowConnection (W_breaker_now env) cb)"

definition ws_reconnect :: "ws_env \<Rightarrow> Request \<Rightarrow> gateway \<Rightarrow> u32 option \<times> gateway" where
  \<comment> \<open>the block on the \<open>sessionId\<close> parameter: the session that was taken over, if any\<close>
  "ws_reconnect env r g =
     (if Q_sessionId r = [] then (None, g)
      else case Sscanf_u32 (Q_sessionId r) of
        None \<Rightarrow> (None, g)
      | Some sid \<Rightarrow>
          (case H_SessionManager (V_hub g) of
             None \<Rightarrow> (None, g)
           | Some mgr \<Rightarrow>
               if \<not> H_ReconnectHandler (V_hub g) then (None, g)
               else (case HandleReconnect (W_since env) (W_attach env) sid mgr of
                   (res, mgr') \<Rightarrow>
                     (case res of Inl _ \<Rightarrow> None | Inr _ \<Rightarrow> Some sid,
                      g\<lparr>V_hub := (V_hub g)\<lparr>H_SessionManager := Some mgr'\<rparr>\<rparr>))))"

definition ws_register :: "u32 \<Rightarrow> gateway \<Rightarrow> conn_ptr \<times> gateway go" where
  \<comment> \<open>\<open>NewConn\<close> and the hand-over to \<open>Hub.Run\<close>\<close>
  "ws_register sid g =
     (let p = V_next g; g = (set_conn p (NewConn sid) g)\<lparr>V_next := Suc p\<rparr>
      in (p, hub_step (Register p) g))"

definition HandleWS :: "ws_env \<Rightarrow> Request \<Rightarrow> gateway \<Rightarrow> (ws_outcome \<times> gateway) go" where
  "HandleWS env r g =
     (let ip = extractIP r; (allowed, g) = ws_limit env ip g
      in if \<not> allowed then Inr (HttpError 429, g)
         else if \<not> ws_circuit env g then Inr (HttpError 503, g)
         else if \<not> W_upgrade env then Inr (UpgradeFailed, g)
         else (let (sid, g) = ws_reconnect env r g;
                   (p, res) = ws_register (case sid of Some i \<Rightarrow> i | None \<Rightarrow> 0) g;
                   kind = (case sid of Some _ \<Rightarrow> EchoHandler | None \<Rightarrow> InputHandler)
               in case res of Inl e \<Rightarrow> Inl e | Inr g' \<Rightarrow> Inr (Serving p kind, g')))"

definition handler_of :: "Engine \<Rightarrow> handler_kind \<Rightarrow> u32 \<Rightarrow> bytes \<Rightarrow> bytes" where
  \<comment> \<open>what the handler given to \<open>ReadPump\<close> sends back\<close>
  "handler_of engine kind connID msg =
     (case kind of
        EchoHandler \<Rightarrow> msg
      | InputHandler \<Rightarrow> (let (allowed, out) = handleInput engine connID msg in out))"

section \<open>Lemmas\<close>

lemma set_conn_simps [simp]:
  "V_hub (set_conn p c g) = V_hub g" "V_next (set_conn p c g) = V_next g"
  "V_conns (set_conn p c g) q = (if q = p then c else V_conns g q)"
  by (simp_all add: set_conn_def)

lemma hub_register:
  "hub_step (Register p) g = Inr (g\<lparr>
     V_conns := (V_conns g)(p := (V_conns g p)\<lparr>K_ID := H_IDGen (V_hub g) + 1\<rparr>),
     V_hub := (V_hub g)\<lparr>H_IDGen := H_IDGen (V_hub g) + 1,
       H_ConnMap := sm_store (H_IDGen (V_hub g) + 1) p (H_ConnMap (V_hub g))\<rparr>\<rparr>)"
  by (simp add: Let_def set_conn_def)

declare hub_step.simps(1) [simp del] hub_register [simp]

text \<open>The broadcast, connection by connection.\<close>

definition offered :: "bytes \<Rightarrow> Conn \<Rightarrow> Conn" where
  \<comment> \<open>what a non-blocking send leaves: full channels are skipped\<close>
  "offered data c =
     (if length (ch_buf (K_Send c)) < ch_cap (K_Send c)
      then c\<lparr>K_Send := (K_Send c)\<lparr>ch_buf := ch_buf (K_Send c) @ [data]\<rparr>\<rparr> else c)"

lemma try_send_open:
  "\<not> ch_closed (K_Send c) \<Longrightarrow> \<exists>b chn. try_send (K_Send c) data = Inr (b, chn) \<and> c\<lparr>K_Send := chn\<rparr> = offered data c"
  by (cases "length (ch_buf (K_Send c)) < ch_cap (K_Send c)") (auto simp: try_send_def offered_def)

lemma broadcast_range_ok:
  assumes "distinct (map snd m)" "\<forall>p\<in>snd ` set m. \<not> ch_closed (K_Send (V_conns g p))"
  shows "\<exists>g'. broadcast_range m data g = Inr g' \<and> V_hub g' = V_hub g \<and> V_next g' = V_next g \<and>
    (\<forall>p. V_conns g' p = (if p \<in> snd ` set m then offered data (V_conns g p) else V_conns g p))"
  using assms
proof (induction m data g rule: broadcast_range.induct)
  case (2 k p m data g)
  define c where "c = offered data (V_conns g p)"
  have "\<not> ch_closed (K_Send (V_conns g p))" using 2(3) by simp
  then obtain b chn where step: "try_send (K_Send (V_conns g p)) data = Inr (b, chn)"
    "(V_conns g p)\<lparr>K_Send := chn\<rparr> = c"
    unfolding c_def using try_send_open by blast
  have "\<forall>q\<in>snd ` set m. \<not> ch_closed (K_Send (V_conns (set_conn p c g) q))"
    using 2(2,3) by auto
  then obtain g' where "broadcast_range m data (set_conn p c g) = Inr g'" "V_hub g' = V_hub g"
    "V_next g' = V_next g"
    "\<forall>q. V_conns g' q = (if q \<in> snd ` set m then offered data (V_conns (set_conn p c g) q)
        else V_conns (set_conn p c g) q)"
    using 2(1) [OF step(1)] 2(2) step(2) by auto
  then show ?case
    using step 2(2) by (auto simp: c_def image_iff)
qed simp

lemma broadcast_range_closed:
  "\<exists>p\<in>snd ` set m. ch_closed (K_Send (V_conns g p)) \<Longrightarrow>
    broadcast_range m data g = Inl SendOnClosedChannel"
proof (induction m data g rule: broadcast_range.induct)
  case (2 k p m data g)
  show ?case
  proof (cases "ch_closed (K_Send (V_conns g p))")
    case True
    then show ?thesis by (simp add: try_send_def)
  next
    case False
    then obtain q where q: "q \<in> snd ` set m" "ch_closed (K_Send (V_conns g q))" "q \<noteq> p"
      using 2(2) by auto
    obtain b chn where step: "try_send (K_Send (V_conns g p)) data = Inr (b, chn)"
      using try_send_open [OF False] by blast
    have "\<exists>q\<in>snd ` set m. ch_closed (K_Send (V_conns (set_conn p ((V_conns g p)\<lparr>K_Send := chn\<rparr>) g) q))"
      using q by (intro bexI [of _ q]) simp_all
    then show ?thesis using 2(1) [OF step refl] step by simp
  qed
qed simp

text \<open>What every operation of the running gateway keeps of the hub: each connection is registered once,
  under the id it carries, and ids are handed out in sequence.\<close>

definition hub_inv :: "gateway \<Rightarrow> bool" where
  "hub_inv g \<longleftrightarrow> sm_wf (H_ConnMap (V_hub g)) \<and> distinct (map snd (H_ConnMap (V_hub g))) \<and>
     (\<forall>(k, p)\<in>set (H_ConnMap (V_hub g)). p < V_next g \<and> K_ID (V_conns g p) = k)"

definition start_gateway :: "Hub \<Rightarrow> gateway" where
  "start_gateway h = \<lparr>V_hub = h, V_conns = \<lambda>_. NewConn 0, V_next = 0\<rparr>"

text \<open>The running gateway: requests to the endpoint, broadcasts, and the pumps, which change nothing
  but the channel of their connection. Nothing in the program sends on \<open>Unregister\<close>.\<close>

inductive gateway_step :: "gateway \<Rightarrow> gateway \<Rightarrow> bool" where
  serve: "HandleWS env r g = Inr (res, g') \<Longrightarrow> gateway_step g g'"
| broadcast: "Hub_Broadcast data g = Inr g' \<Longrightarrow> gateway_step g g'"
| pump: "gateway_step g (set_conn p ((V_conns g p)\<lparr>K_Send := chn\<rparr>) g)"

inductive gateway_reachable :: "Hub \<Rightarrow> gateway \<Rightarrow> bool" for h where
  start: "gateway_reachable h (start_gateway h)"
| step: "gateway_reachable h g \<Longrightarrow> gateway_step g g' \<Longrightarrow> gateway_reachable h g'"

definition all_registered :: "gateway \<Rightarrow> bool" where
  \<comment> \<open>the connections made so far are registered under 1, 2, ...\<close>
  "all_registered g \<longleftrightarrow> H_IDGen (V_hub g) = of_nat (V_next g) \<and>
     (\<forall>k. sm_load (H_ConnMap (V_hub g)) k =
        (if 0 < unat k \<and> unat k \<le> V_next g then Some (unat k - 1) else None))"

definition same_registry :: "gateway \<Rightarrow> gateway \<Rightarrow> bool" where
  \<comment> \<open>the steps that register nothing\<close>
  "same_registry g g' \<longleftrightarrow> H_ConnMap (V_hub g') = H_ConnMap (V_hub g) \<and> H_IDGen (V_hub g') = H_IDGen (V_hub g) \<and>
     V_next g' = V_next g \<and> (\<forall>p. K_ID (V_conns g' p) = K_ID (V_conns g p))"

lemma ws_limit_registry: "same_registry g (snd (ws_limit env ip g))"
  by (simp add: ws_limit_def same_registry_def split: option.split prod.split)

lemma ws_reconnect_registry: "same_registry g (snd (ws_reconnect env r g))"
  by (simp add: ws_reconnect_def same_registry_def split: option.split prod.split)

lemma same_registry_trans: "same_registry g g' \<Longrightarrow> same_registry g' g'' \<Longrightarrow> same_registry g g''"
  by (simp add: same_registry_def)

lemma broadcast_registry:
  "broadcast_range m data g = Inr g' \<Longrightarrow> same_registry g g'"
proof (induction m data g rule: broadcast_range.induct)
  case (2 k p m data g)
  then obtain b chn where step: "try_send (K_Send (V_conns g p)) data = Inr (b, chn)"
    and rest: "broadcast_range m data (set_conn p ((V_conns g p)\<lparr>K_Send := chn\<rparr>) g) = Inr g'"
    by (auto split: sum.splits prod.splits)
  have "same_registry (set_conn p ((V_conns g p)\<lparr>K_Send := chn\<rparr>) g) g'"
    using 2(1) [OF step refl rest] .
  then show ?case by (simp add: same_registry_def)
qed (simp add: same_registry_def)

definition registered :: "u32 \<Rightarrow> gateway \<Rightarrow> gateway" where
  \<comment> \<open>the effect of handing a new connection to the hub\<close>
  "registered sid g = g\<lparr>V_next := Suc (V_next g),
     V_conns := (V_conns g)(V_next g := (NewConn sid)\<lparr>K_ID := H_IDGen (V_hub g) + 1\<rparr>),
     V_hub := (V_hub g)\<lparr>H_IDGen := H_IDGen (V_hub g) + 1,
       H_ConnMap := sm_store (H_IDGen (V_hub g) + 1) (V_next g) (H_ConnMap (V_hub g))\<rparr>\<rparr>"

lemma ws_register_eq: "ws_register sid g = (V_next g, Inr (registered sid g))"
  by (simp add: ws_register_def Let_def registered_def set_conn_def)

lemma HandleWS_cases:
  assumes "HandleWS env r g = Inr (res, g')"
  obtains (refused) "same_registry g g'" "\<nexists>p kind. res = Serving p kind"
  | (served) g1 sid kind where "same_registry g g1" "g' = registered sid g1" "res = Serving (V_next g) kind"
proof -
  define ga where "ga = snd (ws_limit env (extractIP r) g)"
  define gb where "gb = snd (ws_reconnect env r ga)"
  have a: "same_registry g ga" unfolding ga_def by (rule ws_limit_registry)
  have b: "same_registry g gb"
    using a ws_reconnect_registry same_registry_trans unfolding gb_def by blast
  show thesis
    using assms a b refused served [of gb]
    by (auto simp: HandleWS_def Let_def split_beta ws_register_eq same_registry_def
        simp flip: ga_def gb_def split: if_splits)
qed

lemma values_update: "snd ` set (AList.update k v m) \<subseteq> insert v (snd ` set m)"
  by (induction m) auto

lemma distinct_values_update:
  "distinct (map snd m) \<Longrightarrow> v \<notin> snd ` set m \<Longrightarrow> distinct (map snd (AList.update k v m))"
proof (induction m)
  case (Cons a m)
  then show ?case using values_update [of k v m] by (cases a) auto
qed simp

lemma registered_inv:
  assumes "hub_inv g"
  shows "hub_inv (registered sid g)"
proof -
  let ?m = "H_ConnMap (V_hub g)" and ?k = "H_IDGen (V_hub g) + 1"
  have wf: "sm_wf ?m" and dist: "distinct (map snd ?m)" and old: "\<forall>(k, p)\<in>set ?m. p < V_next g \<and> K_ID (V_conns g p) = k"
    using assms by (simp_all add: hub_inv_def)
  have "V_next g \<notin> snd ` set ?m" using old by auto
  then have "distinct (map snd (sm_store ?k (V_next g) ?m))"
    unfolding sm_store_def using dist by (intro distinct_values_update)
  moreover have "(k, p) \<in> set (sm_store ?k (V_next g) ?m) \<Longrightarrow> k = ?k \<and> p = V_next g \<or> k \<noteq> ?k \<and> (k, p) \<in> set ?m" for k p
    using wf by (metis sm_load_entry sm_load_store sm_wf_store option.inject)
  ultimately show ?thesis
    using wf old by (fastforce simp: hub_inv_def registered_def)
qed

lemma hub_inv_same: "same_registry g g' \<Longrightarrow> hub_inv g \<Longrightarrow> hub_inv g'"
  by (auto simp: same_registry_def hub_inv_def)

lemma hub_inv_step: "gateway_step g g' \<Longrightarrow> hub_inv g \<Longrightarrow> hub_inv g'"
proof (induction rule: gateway_step.induct)
  case (serve env r g res g')
  from serve(1) show ?case
  proof (cases rule: HandleWS_cases)
    case refused
    then show ?thesis using hub_inv_same [OF _ serve(2)] by blast
  next
    case (served g1 sid kind)
    have "hub_inv g1" using served(1) serve(2) by (rule hub_inv_same)
    then show ?thesis unfolding served(2) by (rule registered_inv)
  qed
next
  case (broadcast data g g')
  from broadcast(1) have "same_registry g g'" unfolding Hub_Broadcast_def by (rule broadcast_registry)
  then show ?case using broadcast(2) by (rule hub_inv_same)
next
  case (pump g p chn)
  have "same_registry g (set_conn p ((V_conns g p)\<lparr>K_Send := chn\<rparr>) g)" by (simp add: same_registry_def)
  then show ?case using pump by (rule hub_inv_same)
qed

lemma all_registered_same: "same_registry g g' \<Longrightarrow> all_registered g \<Longrightarrow> all_registered g'"
  by (simp add: same_registry_def all_registered_def)

lemma all_registered_new:
  assumes "all_registered g" "Suc (V_next g) < 2 ^ 32"
  shows "all_registered (registered sid g)"
proof -
  have id: "H_IDGen (V_hub g) + 1 = of_nat (Suc (V_next g))" using assms(1) by (simp add: all_registered_def)
  have un: "unat (of_nat (Suc (V_next g)) :: u32) = Suc (V_next g)"
    using assms(2) by (simp add: unat_of_nat del: of_nat_Suc)
  have "k = of_nat (Suc (V_next g)) \<longleftrightarrow> unat k = Suc (V_next g)" for k :: u32
    using un by (simp only: word_unat_eq_iff)
  then have new: "k = H_IDGen (V_hub g) + 1 \<longleftrightarrow> unat k = Suc (V_next g)" for k
    unfolding id .
  have old: "sm_load (H_ConnMap (V_hub g)) k =
      (if 0 < unat k \<and> unat k \<le> V_next g then Some (unat k - 1) else None)" for k
    using assms(1) by (simp add: all_registered_def)
  have "sm_load (H_ConnMap (V_hub (registered sid g))) k =
      (if 0 < unat k \<and> unat k \<le> Suc (V_next g) then Some (unat k - 1) else None)" for k
    by (simp add: registered_def new old)
  moreover have "H_IDGen (V_hub (registered sid g)) = of_nat (V_next (registered sid g))"
    "V_next (registered sid g) = Suc (V_next g)"
    unfolding registered_def using id by simp_all
  ultimately show ?thesis unfolding all_registered_def by simp
qed

lemma gateway_step_next: "gateway_step g g' \<Longrightarrow> V_next g \<le> V_next g'"
proof (induction rule: gateway_step.induct)
  case (serve env r g res g')
  then show ?case by (elim HandleWS_cases) (auto simp: same_registry_def registered_def)
next
  case (broadcast data g g')
  then show ?case using broadcast_registry unfolding Hub_Broadcast_def by (metis same_registry_def order_refl)
qed simp

lemma all_registered_step:
  assumes "gateway_step g g'" "all_registered g" "V_next g' < 2 ^ 32"
  shows "all_registered g'"
  using assms
proof (induction rule: gateway_step.induct)
  case (serve env r g res g')
  from serve(1) show ?case
  proof (cases rule: HandleWS_cases)
    case refused
    then show ?thesis using all_registered_same [OF _ serve(2)] by blast
  next
    case (served g1 sid kind)
    have "all_registered g1" using served(1) serve(2) by (rule all_registered_same)
    moreover have "Suc (V_next g1) < 2 ^ 32" using serve(3) by (simp add: served(2) registered_def)
    ultimately show ?thesis unfolding served(2) by (rule all_registered_new)
  qed
next
  case (broadcast data g g')
  from broadcast(1) have "same_registry g g'" unfolding Hub_Broadcast_def by (rule broadcast_registry)
  then show ?case using broadcast(2) by (rule all_registered_same)
next
  case (pump g p chn)
  have "same_registry g (set_conn p ((V_conns g p)\<lparr>K_Send := chn\<rparr>) g)" by (simp add: same_registry_def)
  then show ?case using pump(1) by (rule all_registered_same)
qed

lemma gateway_reachable_inv:
  assumes "gateway_reachable h g" "H_ConnMap h = []"
  shows "hub_inv g"
  using assms
proof (induction rule: gateway_reachable.induct)
  case start
  then show ?case by (simp add: hub_inv_def start_gateway_def)
qed (auto intro: hub_inv_step)

lemma gateway_reachable_registered:
  assumes "gateway_reachable h g" "H_ConnMap h = []" "H_IDGen h = 0"
  shows "V_next g < 2 ^ 32 \<Longrightarrow> all_registered g"
  using assms
proof (induction rule: gateway_reachable.induct)
  case start
  then show ?case by (auto simp: all_registered_def start_gateway_def)
next
  case (step g g')
  then show ?case using gateway_step_next [of g g'] all_registered_step [of g g'] by simp
qed

text \<open>The engine of the running gateway holds no rule.\<close>

lemma riskEngine_empty: "E_rules riskEngine = []"
  by (simp add: riskEngine_def AddDefaultRules_def LoadRulesFromJSON_def defaultRules_def
      Compile_rm_root NewEngine_def del: list.map(2))

lemma handleInput_riskEngine: "handleInput riskEngine connID msg = (True, msg)"
  by (simp add: handleInput_def CheckAndBlock_def CheckAndConfirm_def Check_def risk_consts riskEngine_empty)

section \<open>Properties\<close>

text \<open>C30: the broadcast. On a hub that registers each connection once, a broadcast offers the data to
  every registered connection: it is appended to each channel with room, skipped at each full one, and
  nothing else changes; it panics exactly when some registered connection's channel is closed.\<close>

theorem hub_broadcast_contract:
  assumes "hub_inv g"
  shows "if \<exists>p\<in>snd ` set (H_ConnMap (V_hub g)). ch_closed (K_Send (V_conns g p))
    then Hub_Broadcast data g = Inl SendOnClosedChannel
    else \<exists>g'. Hub_Broadcast data g = Inr g' \<and> V_hub g' = V_hub g \<and>
      (\<forall>p. V_conns g' p = (if p \<in> snd ` set (H_ConnMap (V_hub g)) then offered data (V_conns g p)
         else V_conns g p))"
proof (cases "\<exists>p\<in>snd ` set (H_ConnMap (V_hub g)). ch_closed (K_Send (V_conns g p))")
  case True
  then show ?thesis by (simp add: Hub_Broadcast_def broadcast_range_closed)
next
  case False
  then show ?thesis
    using broadcast_range_ok [of "H_ConnMap (V_hub g)" g data] assms
    by (auto simp: Hub_Broadcast_def hub_inv_def)
qed

definition two_clients :: gateway where
  \<comment> \<open>two connections; the channel of the second is full\<close>
  "two_clients = set_conn 1 \<lparr>K_ID = 2, K_Send = (make_chan 256)\<lparr>ch_buf := replicate 256 [0]\<rparr>\<rparr>
     (registered 0 (registered 0 (start_gateway NewHub)))"

theorem hub_broadcast_contract_witness:
  "\<exists>g'. Hub_Broadcast [7] two_clients = Inr g' \<and> ch_buf (K_Send (V_conns g' 0)) = [[7]] \<and>
     ch_buf (K_Send (V_conns g' 1)) = replicate 256 [0]"
proof -
  have "hub_inv two_clients"
    by (simp add: two_clients_def hub_inv_def registered_def start_gateway_def NewHub_def NewConn_def
        sm_store_def sm_wf_def)
  from hub_broadcast_contract [OF this, of "[7]"] show ?thesis
    by (auto simp: two_clients_def registered_def start_gateway_def NewHub_def NewConn_def make_chan_def
        sm_store_def offered_def)
qed

text \<open>C11: no connection is ever forgotten. In every state the running gateway can reach, as long as fewer
  than \<open>2 ^ 32\<close> connections have been made, the hub holds every one of them, each exactly once, under
  consecutive ids; ended connections stay too, so after one disconnection, which closes the channel, every later broadcast panics.\<close>

theorem hub_never_forgets:
  assumes "gateway_reachable h g" "H_ConnMap h = []" "H_IDGen h = 0" "V_next g < 2 ^ 32"
  shows "(\<forall>p<V_next g. sm_load (H_ConnMap (V_hub g)) (of_nat (Suc p)) = Some p \<and>
      K_ID (V_conns g p) = of_nat (Suc p)) \<and>
    (\<forall>p<V_next g. ch_closed (K_Send (V_conns g p)) \<longrightarrow> Hub_Broadcast data g = Inl SendOnClosedChannel)"
proof -
  have inv: "hub_inv g" using gateway_reachable_inv assms(1,2) .
  have all: "all_registered g" using gateway_reachable_registered assms by blast
  have un: "unat (of_nat (Suc p) :: u32) = Suc p" if "p < V_next g" for p
    using that assms(4) by (simp add: unat_of_nat del: of_nat_Suc)
  have found: "sm_load (H_ConnMap (V_hub g)) (of_nat (Suc p)) = Some p" if "p < V_next g" for p
    using all un [OF that] that by (simp add: all_registered_def del: of_nat_Suc)
  have entry: "(of_nat (Suc p), p) \<in> set (H_ConnMap (V_hub g))" if "p < V_next g" for p
    using found [OF that] inv by (simp add: hub_inv_def sm_load_entry del: of_nat_Suc)
  have "K_ID (V_conns g p) = of_nat (Suc p)" if "p < V_next g" for p
    using entry [OF that] inv by (auto simp: hub_inv_def simp del: of_nat_Suc)
  moreover have "Hub_Broadcast data g = Inl SendOnClosedChannel"
    if "p < V_next g" "ch_closed (K_Send (V_conns g p))" for p
    unfolding Hub_Broadcast_def using entry [OF that(1)] that(2)
    by (intro broadcast_range_closed) force
  ultimately show ?thesis using found by blast
qed

definition ws_env0 :: ws_env where
  "ws_env0 = \<lparr>W_now = 0, W_breaker_now = 0, W_upgrade = True, W_since = 0, W_attach = 0\<rparr>"

definition request0 :: Request where
  "request0 = \<lparr>Q_XForwardedFor = [], Q_XRealIP = [], Q_RemoteAddr = ''10.0.0.1:5000'', Q_sessionId = []\<rparr>"

lemma HandleWS_plain: "HandleWS ws_env0 request0 (start_gateway NewHub) =
    Inr (Serving 0 InputHandler, registered 0 (start_gateway NewHub))"
  by (simp add: HandleWS_def ws_limit_def ws_circuit_def ws_reconnect_def ws_register_eq
      start_gateway_def NewHub_def ws_env0_def request0_def Let_def split_beta)

theorem hub_never_forgets_witness:
  "sm_load (H_ConnMap (V_hub (registered 0 (start_gateway NewHub)))) 1 = Some 0"
proof -
  have reach: "gateway_reachable NewHub (registered 0 (start_gateway NewHub))"
    using gateway_reachable.step [OF gateway_reachable.start gateway_step.serve [OF HandleWS_plain]] .
  have "H_ConnMap NewHub = []" "H_IDGen NewHub = 0"
    "V_next (registered 0 (start_gateway NewHub)) < 2 ^ 32" "0 < V_next (registered 0 (start_gateway NewHub))"
    by (simp_all add: NewHub_def registered_def start_gateway_def)
  with hub_never_forgets [OF reach this(1-3), of "[]"] show ?thesis by fastforce
qed

text \<open>The input handler. A command whose first matching rule blocks is answered with the block message
  and not passed on; one whose rule asks for confirmation is replaced by the confirmation message, so
  the command itself is lost; anything else is passed on unchanged.\<close>

theorem handle_input_contract:
  "(first_match engine (to_string data) rule \<and> R_Action rule = ActionBlock \<longrightarrow>
      handleInput engine sid data = (False, to_bytes (GetBlockMessage (Some rule)))) \<and>
   (first_match engine (to_string data) rule \<and> R_Action rule = ActionConfirm \<longrightarrow>
      handleInput engine sid data = (True, to_bytes (GetConfirmMessage (Some rule)))) \<and>
   (first_match engine (to_string data) rule \<and> R_Action rule \<notin> {ActionBlock, ActionConfirm} \<longrightarrow>
      handleInput engine sid data = (True, data)) \<and>
   ((\<forall>r\<in>set (E_rules engine). \<not> matches (to_string data) r) \<longrightarrow> handleInput engine sid data = (True, data))"
  by (auto simp: handleInput_def CheckAndBlock_def CheckAndConfirm_def Check_first Check_none risk_consts)

theorem handle_input_contract_witness:
  "handleInput \<lparr>E_rules = [\<lparr>R_ID = ''m'', R_Pattern = literal_prefix [109], R_Level = RiskLevelHigh,
      R_Action = ActionBlock, R_Message = ''no''\<rparr>]\<rparr> 1 (to_bytes ''mkfs /'') =
     (False, to_bytes ([CHR 0x0D, CHR 0x0A, CHR 0x1B] @ ''[31m[BLOCKED]'' @ [CHR 0x1B] @ ''[0m no'' @ [CHR 0x0D, CHR 0x0A]))"
proof -
  let ?r = "\<lparr>R_ID = ''m'', R_Pattern = literal_prefix [109], R_Level = RiskLevelHigh,
      R_Action = ActionBlock, R_Message = ''no''\<rparr>"
  have "first_match \<lparr>E_rules = [?r]\<rparr> (to_string (to_bytes ''mkfs /'')) ?r"
    using MatchString_literal_prefix [of "''m''" "''mkfs /''"]
    by (auto simp: first_match_def matches_def intro!: exI [of _ "[]"])
  with handle_input_contract [of "\<lparr>E_rules = [?r]\<rparr>" "to_bytes ''mkfs /''" ?r 1]
  show ?thesis by (simp add: GetBlockMessage_def)
qed

text \<open>The gateway as it starts checks nothing. With the engine \<open>init\<close> leaves behind, the handler of
  a new connection passes every input on unchanged, exactly as the handler of a reconnected one, which
  does not consult the engine.\<close>

theorem input_unchecked:
  "handler_of riskEngine InputHandler connID msg = msg \<and>
   handler_of engine EchoHandler connID msg = msg \<and> handleInput riskEngine connID msg = (True, msg)"
  by (simp add: handler_of_def handleInput_riskEngine)



text \<open>A reconnection attaches the session but not its identity: when the parameter names a session
  that \<open>HandleReconnect\<close> takes over, the session becomes active, and the new connection carries and is
  registered under the next number of the hub, not the session's.\<close>

theorem reconnect_loses_id:
  assumes "H_RateLimiter (V_hub g) = None" "H_CircuitBreaker (V_hub g) = None" "W_upgrade env"
    and "Sscanf_u32 (Q_sessionId r) = Some sid" "Q_sessionId r \<noteq> []"
    and "H_SessionManager (V_hub g) = Some mgr" "H_ReconnectHandler (V_hub g)"
    and "HandleReconnect (W_since env) (W_attach env) sid mgr = (Inr s, mgr')"
  shows "\<exists>g'. HandleWS env r g = Inr (Serving (V_next g) EchoHandler, g') \<and>
    H_SessionManager (V_hub g') = Some mgr' \<and> S_State s = StateActive \<and>
    K_ID (V_conns g' (V_next g)) = H_IDGen (V_hub g) + 1 \<and>
    sm_load (H_ConnMap (V_hub g')) (H_IDGen (V_hub g) + 1) = Some (V_next g)"
proof -
  have "S_State s = StateActive"
    using assms(8) by (auto simp: HandleReconnect_def Attach_cases split: option.splits if_splits)
  then show ?thesis
    using assms by (simp add: HandleWS_def ws_limit_def ws_circuit_def ws_reconnect_def ws_register_eq
        Let_def registered_def)
qed

theorem reconnect_loses_id_witness:
  "\<exists>g'. HandleWS (ws_env0\<lparr>W_since := 5, W_attach := 6\<rparr>) (request0\<lparr>Q_sessionId := ''7''\<rparr>)
      (start_gateway (SetSessionManager example_manager NewHub)) = Inr (Serving 0 EchoHandler, g') \<and>
    K_ID (V_conns g' 0) = 1"
proof -
  have rc: "\<exists>mgr'. HandleReconnect 5 6 7 example_manager =
      (Inr (example_session\<lparr>S_State := StateActive, S_LastActiveAt := 6\<rparr>), mgr')"
    by (simp add: HandleReconnect_def Attach_cases CanReconnect_iff DefaultReconnectTTL_def
        Minute_def Second_def)
  then obtain mgr' where rc: "HandleReconnect 5 6 7 example_manager =
      (Inr (example_session\<lparr>S_State := StateActive, S_LastActiveAt := 6\<rparr>), mgr')" ..
  have sc: "Sscanf_u32 ''7'' = Some 7"
    by (simp add: Sscanf_u32_def is_space_def)
  show ?thesis
    using reconnect_loses_id [of "start_gateway (SetSessionManager example_manager NewHub)"
        "ws_env0\<lparr>W_since := 5, W_attach := 6\<rparr>" "request0\<lparr>Q_sessionId := ''7''\<rparr>" 7 example_manager _ mgr'] sc rc
    by (auto simp: start_gateway_def SetSessionManager_def NewHub_def ws_env0_def)
qed

text \<open>The client's address. With a forwarding header it is the first entry of the list, trimmed,
  which the client chooses freely; without headers it is the remote address up to its first colon, so
  all IPv6 clients whose addresses share the first group are one address to the limiter.\<close>

theorem extract_ip_contract:
  "(Q_XForwardedFor r \<noteq> [] \<longrightarrow> extractIP r = TrimSpace (up_to CHR '','' (Q_XForwardedFor r))) \<and>
   (Q_XForwardedFor r = [] \<and> Q_XRealIP r \<noteq> [] \<longrightarrow> extractIP r = Q_XRealIP r) \<and>
   (Q_XForwardedFor r = [] \<and> Q_XRealIP r = [] \<and> Q_RemoteAddr r = host @ CHR '':'' # port \<and>
      CHR '':'' \<notin> set host \<longrightarrow> extractIP r = host) \<and>
   (CHR '':'' \<notin> set group1 \<longrightarrow>
      extractIP \<lparr>Q_XForwardedFor = [], Q_XRealIP = [], Q_RemoteAddr = CHR ''['' # group1 @ CHR '':'' # a, Q_sessionId = []\<rparr> =
      extractIP \<lparr>Q_XForwardedFor = [], Q_XRealIP = [], Q_RemoteAddr = CHR ''['' # group1 @ CHR '':'' # b, Q_sessionId = []\<rparr>)"
proof -
  have cut: "up_to CHR '':'' (xs @ CHR '':'' # ys) = xs" if "CHR '':'' \<notin> set xs" for xs ys
    using that by (induction xs) (auto simp: up_to_def)
  from cut [of "CHR ''['' # group1"] cut [of host] show ?thesis
    by (auto simp: extractIP_def)
qed

theorem extract_ip_contract_witness:
  "extractIP request0 = ''10.0.0.1'' \<and>
   extractIP (request0\<lparr>Q_RemoteAddr := ''[2001:db8::1]:80''\<rparr>) = ''[2001'' \<and>
   extractIP (request0\<lparr>Q_XForwardedFor := '' 1.2.3.4 , 5.6.7.8''\<rparr>) = ''1.2.3.4''"
proof -
  have "TrimSpace (up_to CHR '','' '' 1.2.3.4 , 5.6.7.8'') = ''1.2.3.4''" by code_simp
  then show ?thesis
    using extract_ip_contract [of request0 "''10.0.0.1''" "''5000''" "[]" "[]" "[]"]
      extract_ip_contract [of "request0\<lparr>Q_RemoteAddr := ''[2001:db8::1]:80''\<rparr>" "''[2001''" "''db8::1]:80''" "[]" "[]" "[]"]
      extract_ip_contract [of "request0\<lparr>Q_XForwardedFor := '' 1.2.3.4 , 5.6.7.8''\<rparr>" "[]" "[]" "[]" "[]" "[]"]
    by (simp add: request0_def)
qed

end
