(* ===== verification/Router.thy ===== *)
theory Router
  imports RingBuffer BufferPool Codec Hub
begin

text \<open>
  \<open>internal/router/router.go\<close>: every 20 ms the router visits the output buffer of each session, keeps
  the slow flag of the session (backpressure), reads what is available into a pooled buffer, and
  broadcasts one frame with the data of all sessions. The pool, the session manager and the hub are
  the components of their own theories; the choice of the pooled item is an argument.
\<close>

section \<open>State and operations\<close>

definition AggregateInterval :: duration where "AggregateInterval = 20 * Millisecond"

record Router =
  RT_buffers :: "(u32, RingBuffer) sync_map" \<comment> \<open>a buffer is reached through its session id\<close>
  RT_hub :: gateway
  RT_sessionMgr :: Manager
  RT_ticker :: bool \<comment> \<open>not nil\<close>
  RT_stop :: bool \<comment> \<open>\<open>stop\<close> is closed\<close>
  RT_pool :: Pool

definition NewRouter :: "gateway \<Rightarrow> Manager \<Rightarrow> Pool \<Rightarrow> Router" where
  "NewRouter hub mgr pool =
     \<lparr>RT_buffers = [], RT_hub = hub, RT_sessionMgr = mgr, RT_ticker = False, RT_stop = False,
      RT_pool = pool\<rparr>"

definition RegisterBuffer :: "u32 \<Rightarrow> Router \<Rightarrow> Router" where
  "RegisterBuffer sid r = r\<lparr>RT_buffers := sm_store sid NewRingBuffer (RT_buffers r)\<rparr>"

definition UnregisterBuffer :: "u32 \<Rightarrow> Router \<Rightarrow> Router" where
  "UnregisterBuffer sid r = r\<lparr>RT_buffers := sm_delete sid (RT_buffers r)\<rparr>"

definition Router_Start :: "Router \<Rightarrow> Router" where
  "Router_Start r = r\<lparr>RT_ticker := True\<rparr>"

definition Router_Stop :: "Router \<Rightarrow> Router go" where
  "Router_Stop r =
     (if \<not> RT_ticker r then Inl NilDereference
      else if RT_stop r then Inl CloseOfClosedChannel else Inr (r\<lparr>RT_stop := True\<rparr>))"

definition slow_message :: "u32 \<Rightarrow> bool \<Rightarrow> bytes" where
  "slow_message sid isSlow =
     to_bytes (''{\"type\":\"slow\",\"sessionId\":'' @ fmt_d (unat sid) @ '',\"isSlow\":'' @ fmt_bool isSlow @ ''}'')"

definition broadcast_frame :: "Frame \<Rightarrow> gateway \<Rightarrow> gateway go" where
  \<comment> \<open>\<open>hub.Broadcast(frame.Serialize())\<close>\<close>
  "broadcast_frame f g = (case Serialize f of Inl p \<Rightarrow> Inl p | Inr data \<Rightarrow> Hub_Broadcast data g)"

definition slow_frame :: "u32 \<Rightarrow> bool \<Rightarrow> Frame" where
  "slow_frame sid isSlow =
     (let data = slow_message sid isSlow in
      \<lparr>F_Type = 6, F_SessionCount = 1,
       F_Sessions = [\<lparr>SB_SessionID = sid, SB_Length = of_nat (length data), SB_Data = data\<rparr>]\<rparr>)"

definition sendSlowWarning :: "u32 \<Rightarrow> bool \<Rightarrow> Router \<Rightarrow> Router go" where
  "sendSlowWarning sid isSlow r =
     (case broadcast_frame (slow_frame sid isSlow) (RT_hub r) of
        Inl p \<Rightarrow> Inl p | Inr g \<Rightarrow> Inr (r\<lparr>RT_hub := g\<rparr>))"

definition set_slow :: "u32 \<Rightarrow> Session \<Rightarrow> bool \<Rightarrow> Router \<Rightarrow> Router" where
  \<comment> \<open>\<open>s.SetSlow(b)\<close> through the shared pointer\<close>
  "set_slow sid s b r = r\<lparr>RT_sessionMgr := update_session sid (SetSlow b s) (RT_sessionMgr r)\<rparr>"

definition backpressure :: "u32 \<Rightarrow> RingBuffer \<Rightarrow> Session \<Rightarrow> Router \<Rightarrow> (Session \<times> Router) go" where
  \<comment> \<open>the water marks; also the session afterwards\<close>
  "backpressure sid rb s r =
     (if IsHigh rb \<and> \<not> GetSlow s then
        (case sendSlowWarning sid True (set_slow sid s True r) of
           Inl p \<Rightarrow> Inl p | Inr r' \<Rightarrow> Inr (SetSlow True s, r'))
      else if IsLow rb \<and> GetSlow s then
        (case sendSlowWarning sid False (set_slow sid s False r) of
           Inl p \<Rightarrow> Inl p | Inr r' \<Rightarrow> Inr (SetSlow False s, r'))
      else Inr (s, r))"

definition after_read :: "slice \<Rightarrow> bytes \<Rightarrow> slice" where
  \<comment> \<open>the pooled buffer once its visible part has been written\<close>
  "after_read b p = b\<lparr>arr := p @ drop (slen b) (arr b)\<rparr>"

definition aggregate_visit ::
    "nat option \<Rightarrow> u32 \<Rightarrow> RingBuffer \<Rightarrow> Frame \<Rightarrow> Router \<Rightarrow> (Frame \<times> Router) go" where
  \<comment> \<open>the callback of \<open>Range\<close>, which always continues; its deferred \<open>Put\<close> runs when it returns\<close>
  "aggregate_visit pick sid rb frame r =
     (case Manager_Get (RT_sessionMgr r) sid of
        None \<Rightarrow> Inr (frame, r)
      | Some s \<Rightarrow>
          (case backpressure sid rb s r of
             Inl p \<Rightarrow> Inl p
           | Inr (s, r) \<Rightarrow>
               if GetSlow s then Inr (frame, r)
               else (case Get (RT_pool r) 4096 pick of
                   Inl p \<Rightarrow> Inl p
                 | Inr (data, pool) \<Rightarrow>
                     (case TryRead rb (visible data) of
                        Inl p \<Rightarrow> Inl p
                      | Inr ((n, err), out, rb') \<Rightarrow>
                          (let frame' = (if 0 < n
                                 then frame\<lparr>F_Sessions := F_Sessions frame @
                                        [\<lparr>SB_SessionID = sid, SB_Length = of_nat n, SB_Data = take n out\<rparr>],
                                      F_SessionCount := F_SessionCount frame + 1\<rparr>
                                 else frame)
                           in case Put pool (after_read data out) of
                                Inl p \<Rightarrow> Inl p
                              | Inr pool' \<Rightarrow>
                                  Inr (frame', r\<lparr>RT_pool := pool',
                                    RT_buffers := sm_store sid rb' (RT_buffers r)\<rparr>))))))"

fun aggregate_range ::
    "(u32 \<Rightarrow> nat option) \<Rightarrow> (u32 \<times> RingBuffer) list \<Rightarrow> Frame \<Rightarrow> Router \<Rightarrow> (Frame \<times> Router) go" where
  "aggregate_range picks [] frame r = Inr (frame, r)"
| "aggregate_range picks ((sid, rb) # rbs) frame r =
     (case aggregate_visit (picks sid) sid rb frame r of
        Inl p \<Rightarrow> Inl p
      | Inr (frame', r') \<Rightarrow> aggregate_range picks rbs frame' r')"

definition aggregate :: "(u32 \<Rightarrow> nat option) \<Rightarrow> Router \<Rightarrow> Router go" where
  "aggregate picks r =
     (let frame = \<lparr>F_Type = FrameTypeTerminalOutput, F_SessionCount = 0, F_Sessions = []\<rparr>
      in case aggregate_range picks (RT_buffers r) frame r of
           Inl p \<Rightarrow> Inl p
         | Inr (frame', r') \<Rightarrow>
             if 0 < F_SessionCount frame'
             then (case broadcast_frame frame' (RT_hub r') of
                     Inl p \<Rightarrow> Inl p | Inr g \<Rightarrow> Inr (r'\<lparr>RT_hub := g\<rparr>))
             else Inr r')"

datatype router_event =
    TickAt "u32 \<Rightarrow> nat option"
  | StopRouter

fun router_run :: "router_event list \<Rightarrow> Router \<Rightarrow> Router go" where
  "router_run [] r = Inr r"
| "router_run (TickAt picks # es) r =
     (case aggregate picks r of Inl p \<Rightarrow> Inl p | Inr r' \<Rightarrow> router_run es r')"
| "router_run (StopRouter # es) r = Inr r"

section \<open>What a round really does\<close>

text \<open>The reference: the water marks, and nothing else.\<close>

fun warn_range :: "(u32 \<times> RingBuffer) list \<Rightarrow> Router \<Rightarrow> Router go" where
  "warn_range [] r = Inr r"
| "warn_range ((sid, rb) # rbs) r =
     (case Manager_Get (RT_sessionMgr r) sid of
        None \<Rightarrow> warn_range rbs r
      | Some s \<Rightarrow>
          (case backpressure sid rb s r of Inl p \<Rightarrow> Inl p | Inr (_, r') \<Rightarrow> warn_range rbs r'))"

lemma TryRead_empty:
  assumes "rb_inv rb"
  shows "\<exists>err. TryRead rb [] = Inr ((0, err), [], rb)"
proof (cases "rb_write rb \<le> rb_read rb")
  case True
  then show ?thesis by (simp add: TryRead_def)
next
  case False
  have bounds: "0 \<le> rb_read rb" "rb_write rb < 2 ^ 63" using assms by (simp_all add: rb_inv_def)
  have avail: "wrap64 (rb_write rb - rb_read rb) = rb_write rb - rb_read rb"
    using False bounds by (intro wrap64_id) simp_all
  obtain q where pos: "go_rem (rb_read rb) (int BufferSize) = q" "0 \<le> q" "q < int BufferSize"
    using go_rem_nonneg [of "rb_read rb" "int BufferSize"] bounds
      pos_mod_bound [of "int BufferSize" "rb_read rb"] pos_mod_sign [of "int BufferSize" "rb_read rb"] by simp
  moreover have "wrap64 (rb_read rb) = rb_read rb" using False bounds by (intro wrap64_id) simp_all
  ultimately show ?thesis using False by (simp add: TryRead_def avail Let_def)
qed

lemma sendSlowWarning_pool:
  "sendSlowWarning sid b (r\<lparr>RT_pool := P\<rparr>) =
    (case sendSlowWarning sid b r of Inl p \<Rightarrow> Inl p | Inr r' \<Rightarrow> Inr (r'\<lparr>RT_pool := P\<rparr>))"
  by (simp add: sendSlowWarning_def split: sum.split)

lemma set_slow_pool: "set_slow sid s b (r\<lparr>RT_pool := P\<rparr>) = (set_slow sid s b r)\<lparr>RT_pool := P\<rparr>"
  by (simp add: set_slow_def)

lemma backpressure_pool:
  "backpressure sid rb s (r\<lparr>RT_pool := P\<rparr>) =
    (case backpressure sid rb s r of Inl p \<Rightarrow> Inl p | Inr (s', r') \<Rightarrow> Inr (s', r'\<lparr>RT_pool := P\<rparr>))"
  by (simp add: backpressure_def set_slow_pool sendSlowWarning_pool split: sum.split)

lemma sendSlowWarning_buffers: "sendSlowWarning sid b r = Inr r' \<Longrightarrow> RT_buffers r' = RT_buffers r"
  by (auto simp: sendSlowWarning_def split: sum.splits)

lemma backpressure_buffers: "backpressure sid rb s r = Inr (s', r') \<Longrightarrow> RT_buffers r' = RT_buffers r"
  by (auto simp: backpressure_def set_slow_def split: sum.splits if_splits dest!: sendSlowWarning_buffers)

lemma store_same: "sm_load m k = Some v \<Longrightarrow> sm_store k v m = m"
  unfolding sm_load_def sm_store_def by (induction m) (auto split: if_splits)

text \<open>The pool hands out slices of length 0, so nothing is read.\<close>

lemma visit_reads_nothing:
  assumes pool: "pool_inv P" and rb: "rb_inv rb" "sm_load (RT_buffers r) sid = Some rb"
  shows "\<exists>P'. pool_inv P' \<and> aggregate_visit pick sid rb frame (r\<lparr>RT_pool := P\<rparr>) =
    (case Manager_Get (RT_sessionMgr r) sid of
       None \<Rightarrow> Inr (frame, r\<lparr>RT_pool := P'\<rparr>)
     | Some s \<Rightarrow> (case backpressure sid rb s r of Inl p \<Rightarrow> Inl p | Inr (_, r') \<Rightarrow> Inr (frame, r'\<lparr>RT_pool := P'\<rparr>)))"
proof (cases "Manager_Get (RT_sessionMgr r) sid")
  case None
  then show ?thesis using pool by (auto simp: aggregate_visit_def)
next
  case (Some s)
  show ?thesis
  proof (cases "backpressure sid rb s r")
    case (Inl p)
    then show ?thesis using pool Some by (auto simp: aggregate_visit_def backpressure_pool)
  next
    case (Inr sr)
    obtain s' r' where sr: "sr = (s', r')" by (cases sr)
    have buf: "sm_store sid rb (RT_buffers r') = RT_buffers r'"
      using backpressure_buffers Inr sr rb(2) by (metis store_same)
    obtain b P1 where get: "Get P 4096 pick = Inr (b, P1)" "pool_inv P1"
      using pool.get_buffer [OF pool] by blast
    have b: "visible b = []" using pool.get_visible [OF pool get(1)] by simp
    obtain err where read: "TryRead rb [] = Inr ((0, err), [], rb)" using TryRead_empty [OF rb(1)] ..
    obtain P2 where put: "Put P1 (after_read b []) = Inr P2" "pool_inv P2"
      using pool.put_buffer [OF get(2)] by blast
    have "r'\<lparr>RT_pool := P2, RT_buffers := RT_buffers r'\<rparr> = r'\<lparr>RT_pool := P2\<rparr>" by simp
    then show ?thesis
      using Some Inr sr pool put
      by (cases "GetSlow s'") (auto simp: aggregate_visit_def backpressure_pool get b read buf)
  qed
qed

lemma range_reads_nothing:
  assumes "pool_inv P" "\<forall>(sid, rb)\<in>set rbs. rb_inv rb \<and> sm_load (RT_buffers r) sid = Some rb"
  shows "\<exists>P'. pool_inv P' \<and> aggregate_range picks rbs frame (r\<lparr>RT_pool := P\<rparr>) =
    (case warn_range rbs r of Inl p \<Rightarrow> Inl p | Inr r' \<Rightarrow> Inr (frame, r'\<lparr>RT_pool := P'\<rparr>))"
  using assms
proof (induction rbs arbitrary: r P)
  case (Cons e rbs)
  obtain sid rb where e: "e = (sid, rb)" by (cases e)
  have rb: "rb_inv rb" "sm_load (RT_buffers r) sid = Some rb" using Cons.prems(2) e by auto
  obtain P1 where visit: "pool_inv P1" "aggregate_visit (picks sid) sid rb frame (r\<lparr>RT_pool := P\<rparr>) =
    (case Manager_Get (RT_sessionMgr r) sid of
       None \<Rightarrow> Inr (frame, r\<lparr>RT_pool := P1\<rparr>)
     | Some s \<Rightarrow> (case backpressure sid rb s r of Inl p \<Rightarrow> Inl p | Inr (_, r') \<Rightarrow> Inr (frame, r'\<lparr>RT_pool := P1\<rparr>)))"
    using visit_reads_nothing [OF Cons.prems(1) rb] by blast
  show ?case
  proof (cases "Manager_Get (RT_sessionMgr r) sid")
    case None
    then show ?thesis using visit Cons.IH [OF visit(1), of r] Cons.prems(2) e by simp
  next
    case (Some s)
    show ?thesis
    proof (cases "backpressure sid rb s r")
      case (Inl p)
      then show ?thesis using visit Some e by auto
    next
      case (Inr sr)
      obtain s' r' where sr: "sr = (s', r')" by (cases sr)
      have "RT_buffers r' = RT_buffers r" using backpressure_buffers Inr sr by blast
      then show ?thesis
        using visit Some Inr sr Cons.IH [OF visit(1), of r'] Cons.prems(2) e by simp
    qed
  qed
qed auto

definition router_inv :: "Router \<Rightarrow> bool" where
  "router_inv r \<longleftrightarrow> pool_inv (RT_pool r) \<and> sm_wf (RT_buffers r) \<and> (\<forall>(sid, rb)\<in>set (RT_buffers r). rb_inv rb)"

lemma aggregate_warns:
  assumes "router_inv r"
  shows "\<exists>P. pool_inv P \<and> aggregate picks r =
    (case warn_range (RT_buffers r) r of Inl p \<Rightarrow> Inl p | Inr r' \<Rightarrow> Inr (r'\<lparr>RT_pool := P\<rparr>))"
proof -
  have "\<forall>(sid, rb)\<in>set (RT_buffers r). rb_inv rb \<and> sm_load (RT_buffers r) sid = Some rb"
    using assms by (auto simp: router_inv_def sm_load_entry)
  then obtain P where "pool_inv P" "aggregate_range picks (RT_buffers r)
      \<lparr>F_Type = FrameTypeTerminalOutput, F_SessionCount = 0, F_Sessions = []\<rparr> (r\<lparr>RT_pool := RT_pool r\<rparr>) =
    (case warn_range (RT_buffers r) r of Inl p \<Rightarrow> Inl p
     | Inr r' \<Rightarrow> Inr (\<lparr>F_Type = FrameTypeTerminalOutput, F_SessionCount = 0, F_Sessions = []\<rparr>, r'\<lparr>RT_pool := P\<rparr>))"
    using range_reads_nothing [of "RT_pool r" "RT_buffers r" r picks] assms
    unfolding router_inv_def by blast
  then show ?thesis
    by (intro exI [of _ P]) (simp add: aggregate_def Let_def split: sum.split)
qed

text \<open>What a round puts on the channels of the connections: slow warnings only.\<close>

definition only_warnings :: "gateway \<Rightarrow> gateway \<Rightarrow> bool" where
  "only_warnings g g' \<longleftrightarrow> (\<forall>p. \<exists>ms. ch_buf (K_Send (V_conns g' p)) = ch_buf (K_Send (V_conns g p)) @ ms \<and>
     (\<forall>m\<in>set ms. \<exists>sid b. Serialize (slow_frame sid b) = Inr m))"

lemma only_warnings_refl: "only_warnings g g"
  by (simp add: only_warnings_def)

lemma only_warnings_trans:
  assumes "only_warnings g g'" "only_warnings g' g''"
  shows "only_warnings g g''"
  unfolding only_warnings_def
proof
  fix p
  obtain ms ns where "ch_buf (K_Send (V_conns g' p)) = ch_buf (K_Send (V_conns g p)) @ ms"
    "ch_buf (K_Send (V_conns g'' p)) = ch_buf (K_Send (V_conns g' p)) @ ns"
    "\<forall>m\<in>set (ms @ ns). \<exists>sid b. Serialize (slow_frame sid b) = Inr m"
    using assms unfolding only_warnings_def by (metis UnE set_append)
  then show "\<exists>ms. ch_buf (K_Send (V_conns g'' p)) = ch_buf (K_Send (V_conns g p)) @ ms \<and>
      (\<forall>m\<in>set ms. \<exists>sid b. Serialize (slow_frame sid b) = Inr m)"
    by (intro exI [of _ "ms @ ns"]) simp
qed

lemma broadcast_range_appends:
  "broadcast_range m data g = Inr g' \<Longrightarrow>
    \<exists>k. ch_buf (K_Send (V_conns g' p)) = ch_buf (K_Send (V_conns g p)) @ replicate k data"
proof (induction m data g rule: broadcast_range.induct)
  case (1 data g)
  then show ?case by (intro exI [of _ 0]) simp
next
  case (2 k q m data g)
  then obtain b chn where step: "try_send (K_Send (V_conns g q)) data = Inr (b, chn)"
    and rest: "broadcast_range m data (set_conn q ((V_conns g q)\<lparr>K_Send := chn\<rparr>) g) = Inr g'"
    by (auto split: sum.splits prod.splits)
  obtain j where "ch_buf (K_Send (V_conns g' p)) =
      ch_buf (K_Send (V_conns (set_conn q ((V_conns g q)\<lparr>K_Send := chn\<rparr>) g) p)) @ replicate j data"
    using 2(1) [OF step refl rest] by blast
  moreover have "ch_buf chn = ch_buf (K_Send (V_conns g q)) @ replicate (if b then 1 else 0) data"
    using step by (auto simp: try_send_def split: if_splits)
  ultimately show ?case
    by (intro exI [of _ "(if p = q \<and> b then 1 else 0) + j"]) (simp add: replicate_add)
qed

lemma sendSlowWarning_only: "sendSlowWarning sid b r = Inr r' \<Longrightarrow> only_warnings (RT_hub r) (RT_hub r')"
  unfolding sendSlowWarning_def broadcast_frame_def Hub_Broadcast_def only_warnings_def
  using broadcast_range_appends by (fastforce split: sum.splits)

lemma backpressure_only: "backpressure sid rb s r = Inr (s', r') \<Longrightarrow> only_warnings (RT_hub r) (RT_hub r')"
  by (auto simp: backpressure_def set_slow_def only_warnings_refl split: sum.splits if_splits
      dest!: sendSlowWarning_only)

lemma warn_range_only:
  "warn_range rbs r = Inr r' \<Longrightarrow> only_warnings (RT_hub r) (RT_hub r') \<and> RT_buffers r' = RT_buffers r"
proof (induction rbs r rule: warn_range.induct)
  case (2 sid rb rbs r)
  show ?case
  proof (cases "Manager_Get (RT_sessionMgr r) sid")
    case None
    then show ?thesis using 2 by simp
  next
    case (Some s)
    then obtain s' r1 where bp: "backpressure sid rb s r = Inr (s', r1)" and rest: "warn_range rbs r1 = Inr r'"
      using 2(3) by (auto split: sum.splits prod.splits)
    have "only_warnings (RT_hub r1) (RT_hub r') \<and> RT_buffers r' = RT_buffers r1"
      using 2(2) [OF Some bp refl rest] .
    then show ?thesis
      using backpressure_only [OF bp] backpressure_buffers [OF bp] only_warnings_trans by metis
  qed
qed (simp add: only_warnings_refl)

lemma aggregate_Inr:
  assumes "router_inv r" "aggregate picks r = Inr r'"
  obtains P r1 where "pool_inv P" "warn_range (RT_buffers r) r = Inr r1" "r' = r1\<lparr>RT_pool := P\<rparr>"
proof -
  obtain P where P: "pool_inv P" "aggregate picks r =
      (case warn_range (RT_buffers r) r of Inl p \<Rightarrow> Inl p | Inr r' \<Rightarrow> Inr (r'\<lparr>RT_pool := P\<rparr>))"
    using aggregate_warns [OF assms(1)] by blast
  show thesis
  proof (cases "warn_range (RT_buffers r) r")
    case (Inl p)
    then show thesis using P assms(2) by simp
  next
    case (Inr r1)
    then show thesis using P assms(2) that [of P r1] by simp
  qed
qed

lemma aggregate_effect:
  assumes "router_inv r" "aggregate picks r = Inr r'"
  shows "router_inv r' \<and> RT_buffers r' = RT_buffers r \<and> only_warnings (RT_hub r) (RT_hub r')"
proof -
  obtain P r1 where "pool_inv P" "warn_range (RT_buffers r) r = Inr r1" "r' = r1\<lparr>RT_pool := P\<rparr>"
    using aggregate_Inr [OF assms(1,2)] by blast
  then show ?thesis
    using warn_range_only [of "RT_buffers r" r r1] assms(1) by (simp add: router_inv_def)
qed

lemma router_run_effect:
  "router_inv r \<Longrightarrow> router_run es r = Inr r' \<Longrightarrow>
    router_inv r' \<and> RT_buffers r' = RT_buffers r \<and> only_warnings (RT_hub r) (RT_hub r')"
proof (induction es r rule: router_run.induct)
  case (2 picks es r)
  from 2(3) obtain r1 where agg: "aggregate picks r = Inr r1" and rest: "router_run es r1 = Inr r'"
    by (simp split: sum.splits)
  have first: "router_inv r1 \<and> RT_buffers r1 = RT_buffers r \<and> only_warnings (RT_hub r) (RT_hub r1)"
    using aggregate_effect [OF 2(2) agg] .
  then have "router_inv r' \<and> RT_buffers r' = RT_buffers r1 \<and> only_warnings (RT_hub r1) (RT_hub r')"
    using 2(1) [OF agg _ rest] by simp
  then show ?case using first only_warnings_trans [of "RT_hub r" "RT_hub r1"] by simp
qed (simp_all add: only_warnings_refl)

section \<open>Backpressure\<close>

definition slow_after :: "RingBuffer \<Rightarrow> bool \<Rightarrow> bool" where
  \<comment> \<open>hysteresis between the water marks\<close>
  "slow_after rb slow = (if IsHigh rb then True else if IsLow rb then False else slow)"

lemma marks_apart: "IsHigh rb \<Longrightarrow> \<not> IsLow rb"
  by (simp add: IsHigh_def IsLow_def WaterMarkHigh_def WaterMarkLow_def BufferSize_def)

lemma SetSlow_same: "SetSlow (GetSlow s) s = s"
  by (simp add: SetSlow_def GetSlow_def)

lemma GetSlow_SetSlow [simp]: "GetSlow (SetSlow b s) = b"
  by (simp add: SetSlow_def GetSlow_def)

lemma sendSlowWarning_mgr: "sendSlowWarning sid b r = Inr r' \<Longrightarrow> RT_sessionMgr r' = RT_sessionMgr r"
  by (auto simp: sendSlowWarning_def split: sum.splits)

lemma backpressure_mgr:
  assumes "backpressure sid rb s r = Inr (s', r')" "Manager_Get (RT_sessionMgr r) sid = Some s"
  shows "Manager_Get (RT_sessionMgr r') = (Manager_Get (RT_sessionMgr r))(sid \<mapsto> SetSlow (slow_after rb (GetSlow s)) s)"
proof -
  have same: "SetSlow (GetSlow s) s = s" by (rule SetSlow_same)
  show ?thesis
    using assms marks_apart [of rb] same
    by (cases "GetSlow s"; cases "IsHigh rb"; cases "IsLow rb")
      (auto simp: backpressure_def set_slow_def slow_after_def fun_eq_iff split: sum.splits
        dest!: sendSlowWarning_mgr)
qed

lemma warn_range_mgr:
  assumes "distinct (map fst rbs)" "warn_range rbs r = Inr r'" "Manager_Get (RT_sessionMgr r) sid = Some s"
  shows "Manager_Get (RT_sessionMgr r') sid =
    Some (case map_of rbs sid of None \<Rightarrow> s | Some rb \<Rightarrow> SetSlow (slow_after rb (GetSlow s)) s)"
  using assms
proof (induction rbs arbitrary: r s)
  case (Cons e rbs)
  obtain k rb where e: "e = (k, rb)" by (cases e)
  show ?case
  proof (cases "Manager_Get (RT_sessionMgr r) k")
    case None
    then show ?thesis using Cons e by (auto split: if_splits)
  next
    case (Some t)
    then obtain t' r1 where bp: "backpressure k rb t r = Inr (t', r1)" and rest: "warn_range rbs r1 = Inr r'"
      using Cons.prems(2) e by (auto split: sum.splits prod.splits)
    note mgr = backpressure_mgr [OF bp Some]
    show ?thesis
    proof (cases "k = sid")
      case True
      then have "map_of rbs sid = None" using Cons.prems(1) e by (simp add: map_of_eq_None_iff)
      then show ?thesis
        using Cons.IH [of r1 "SetSlow (slow_after rb (GetSlow s)) s"] rest mgr True e Some Cons.prems by simp
    next
      case False
      then show ?thesis using Cons.IH [of r1 s] rest mgr e Cons.prems by simp
    qed
  qed
qed simp

lemma aggregate_slow:
  assumes "router_inv r" "aggregate picks r = Inr r'" "sm_load (RT_buffers r) sid = Some rb"
    and "Manager_Get (RT_sessionMgr r) sid = Some s"
  shows "Manager_Get (RT_sessionMgr r') sid = Some (SetSlow (slow_after rb (GetSlow s)) s)"
proof -
  obtain P r1 where "warn_range (RT_buffers r) r = Inr r1" "r' = r1\<lparr>RT_pool := P\<rparr>"
    using aggregate_Inr [OF assms(1,2)] by blast
  then show ?thesis
    using warn_range_mgr [of "RT_buffers r" r r1 sid s] assms by (simp add: router_inv_def sm_wf_def sm_load_def)
qed

lemma router_run_slow:
  assumes "router_inv r" "router_run es r = Inr r'" "sm_load (RT_buffers r) sid = Some rb"
    and "Manager_Get (RT_sessionMgr r) sid = Some s" "GetSlow s" "\<not> IsLow rb"
  shows "\<exists>s'. Manager_Get (RT_sessionMgr r') sid = Some s' \<and> GetSlow s'"
  using assms
proof (induction es r arbitrary: s rule: router_run.induct)
  case (2 picks es r)
  from 2(3) obtain r1 where agg: "aggregate picks r = Inr r1" and rest: "router_run es r1 = Inr r'"
    by (simp split: sum.splits)
  have "Manager_Get (RT_sessionMgr r1) sid = Some (SetSlow (slow_after rb (GetSlow s)) s)"
    using aggregate_slow [OF 2(2) agg 2(4,5)] .
  moreover have "slow_after rb (GetSlow s)" using 2(6,7) by (simp add: slow_after_def)
  moreover have "router_inv r1" "sm_load (RT_buffers r1) sid = Some rb"
    using aggregate_effect [OF 2(2) agg] 2(4) by simp_all
  ultimately show ?case using 2(1) [OF agg _ rest] 2(7) by simp
qed auto

section \<open>Properties\<close>

text \<open>C4: the router delivers no output. \<open>Pool.Get\<close> returns a slice of length 0, so \<open>TryRead\<close> has
  nowhere to put a byte: however many rounds the router runs, every buffer is left exactly as it was,
  its unread bytes included, and the connections receive slow warnings only.\<close>

theorem router_delivers_nothing:
  assumes "router_inv r" "router_run es r = Inr r'"
  shows "RT_buffers r' = RT_buffers r \<and> only_warnings (RT_hub r) (RT_hub r')"
  using router_run_effect [OF assms] by simp

definition demo_router :: "RingBuffer \<Rightarrow> Router" where
  \<comment> \<open>one session, one connection\<close>
  "demo_router rb = (NewRouter (registered 0 (start_gateway NewHub)) example_manager NewPool)
     \<lparr>RT_buffers := [(7, rb)]\<rparr>"

lemma router_inv_demo: "rb_inv rb \<Longrightarrow> router_inv (demo_router rb)"
  by (simp add: router_inv_def demo_router_def NewRouter_def NewPool_def pool_inv_def sm_wf_def)

definition filled :: "nat \<Rightarrow> RingBuffer" where
  \<comment> \<open>\<open>n\<close> unread bytes\<close>
  "filled n = NewRingBuffer\<lparr>rb_write := int n\<rparr>"

lemma rb_inv_filled: "n \<le> BufferSize \<Longrightarrow> rb_inv (filled n)"
  using BufferSize_bound by (simp add: rb_inv_def filled_def NewRingBuffer_def)

lemma example_manager_7: "Manager_Get example_manager 7 = Some example_session"
  by (simp add: example_manager_def example_session_def Manager_Get_def Manager_Register_def
      NewManager_def NewSession_def Detach_def)

lemma example_not_slow: "\<not> GetSlow example_session"
  by (simp add: example_session_def NewSession_def Detach_def GetSlow_def)

lemma demo_calm:
  assumes "n \<le> BufferSize" "\<not> IsHigh (filled n)"
  shows "\<exists>P. aggregate picks (demo_router (filled n)) = Inr ((demo_router (filled n))\<lparr>RT_pool := P\<rparr>)"
proof -
  have "warn_range (RT_buffers (demo_router (filled n))) (demo_router (filled n)) = Inr (demo_router (filled n))"
    using assms(2) by (simp add: demo_router_def NewRouter_def example_manager_7 backpressure_def example_not_slow)
  then show ?thesis
    using aggregate_warns [OF router_inv_demo [OF rb_inv_filled [OF assms(1)]], of picks] by auto
qed

theorem router_delivers_nothing_witness:
  "\<exists>r'. router_run [TickAt (\<lambda>_. None)] (demo_router (filled 5)) = Inr r' \<and>
     length (pending (filled 5)) = 5 \<and> RT_buffers r' = [(7, filled 5)]"
proof -
  have small: "5 \<le> BufferSize" "\<not> IsHigh (filled 5)"
    by (simp_all add: BufferSize_def IsHigh_def Available_def filled_def NewRingBuffer_def WaterMarkHigh_def wrap64_id)
  obtain P where "aggregate (\<lambda>_. None) (demo_router (filled 5)) = Inr ((demo_router (filled 5))\<lparr>RT_pool := P\<rparr>)"
    using demo_calm [OF small] by blast
  then have run: "router_run [TickAt (\<lambda>_. None)] (demo_router (filled 5)) =
      Inr ((demo_router (filled 5))\<lparr>RT_pool := P\<rparr>)" by simp
  have "length (pending (filled 5)) = 5" by (simp add: pending_def filled_def NewRingBuffer_def)
  then show ?thesis
    using router_delivers_nothing [OF router_inv_demo [OF rb_inv_filled [OF small(1)]] run] run
    by (simp add: demo_router_def)
qed

text \<open>C27: backpressure is a hysteresis. A round that does not panic sets the slow flag of a session
  when its buffer is at least 85% full, clears it when it is at most half full, and leaves it alone in
  between; nothing else of the session changes.\<close>

theorem backpressure_hysteresis:
  assumes "router_inv r" "aggregate picks r = Inr r'" "sm_load (RT_buffers r) sid = Some rb"
    and "Manager_Get (RT_sessionMgr r) sid = Some s"
  shows "Manager_Get (RT_sessionMgr r') sid =
    Some (s\<lparr>S_IsSlow := (if int (BufferSize * 85 div 100) \<le> Available rb then True
                     else if Available rb \<le> int (BufferSize * 50 div 100) then False else S_IsSlow s)\<rparr>)"
  using aggregate_slow [OF assms]
  by (simp add: slow_after_def IsHigh_def IsLow_def WaterMarkHigh_def WaterMarkLow_def SetSlow_def GetSlow_def)

lemma demo_high:
  assumes "n \<le> BufferSize" "IsHigh (filled n)"
  shows "\<exists>r'. aggregate picks (demo_router (filled n)) = Inr r'"
proof -
  have inv: "hub_inv (registered 0 (start_gateway NewHub))"
    by (simp add: hub_inv_def registered_def start_gateway_def NewHub_def sm_store_def sm_wf_def)
  have open_chan: "\<not> (\<exists>p\<in>snd ` set (H_ConnMap (V_hub (registered 0 (start_gateway NewHub)))).
      ch_closed (K_Send (V_conns (registered 0 (start_gateway NewHub)) p)))"
    by (simp add: registered_def start_gateway_def NewHub_def NewConn_def make_chan_def sm_store_def)
  have "length (slow_message 7 True) < 2 ^ 16"
    using length_fmt_d [of 7 0] by (simp add: slow_message_def)
  then have "list_all wf_block (F_Sessions (slow_frame 7 True))"
    by (simp add: slow_frame_def Let_def wf_block_def unat_of_nat)
  then obtain data where "Serialize (slow_frame 7 True) = Inr data" using Serialize_spec by blast
  moreover obtain g' where "Hub_Broadcast data (registered 0 (start_gateway NewHub)) = Inr g'"
    using broadcast_range_ok [of "H_ConnMap (V_hub (registered 0 (start_gateway NewHub)))"
        "registered 0 (start_gateway NewHub)" data] inv open_chan
    by (auto simp: Hub_Broadcast_def hub_inv_def)
  ultimately have "\<exists>r'. warn_range (RT_buffers (demo_router (filled n))) (demo_router (filled n)) = Inr r'"
    using assms(2) by (simp add: demo_router_def NewRouter_def example_manager_7 backpressure_def example_not_slow
        sendSlowWarning_def broadcast_frame_def set_slow_def)
  then show ?thesis
    using aggregate_warns [OF router_inv_demo [OF rb_inv_filled [OF assms(1)]], of picks] by auto
qed

lemma demo_full: "1000000 \<le> BufferSize" "IsHigh (filled 1000000)" "Available (filled 1000000) = 1000000"
  by (simp_all add: BufferSize_def IsHigh_def Available_def filled_def NewRingBuffer_def WaterMarkHigh_def wrap64_id)

theorem backpressure_hysteresis_witness:
  "\<exists>r'. aggregate (\<lambda>_. None) (demo_router (filled 1000000)) = Inr r' \<and>
     Manager_Get (RT_sessionMgr r') 7 = Some (example_session\<lparr>S_IsSlow := True\<rparr>)"
proof -
  obtain r' where run: "aggregate (\<lambda>_. None) (demo_router (filled 1000000)) = Inr r'"
    using demo_high [OF demo_full(1,2)] by blast
  have "Manager_Get (RT_sessionMgr (demo_router (filled 1000000))) 7 = Some example_session"
    "sm_load (RT_buffers (demo_router (filled 1000000))) 7 = Some (filled 1000000)"
    by (simp_all add: demo_router_def NewRouter_def example_manager_7 sm_load_def)
  with backpressure_hysteresis [OF router_inv_demo [OF rb_inv_filled [OF demo_full(1)]] run] run
  show ?thesis by (simp add: demo_full(3) BufferSize_def)
qed

text \<open>Backpressure is never released. Once the buffer of a session is over the high mark, the session
  is slow after the next round and after every later one, since no round takes a byte out of the
  buffer.\<close>

theorem backpressure_never_released:
  assumes "router_inv r" "router_run (TickAt picks # es) r = Inr r'" "sm_load (RT_buffers r) sid = Some rb"
    and "Manager_Get (RT_sessionMgr r) sid = Some s" "IsHigh rb"
  shows "\<exists>s'. Manager_Get (RT_sessionMgr r') sid = Some s' \<and> GetSlow s'"
proof -
  from assms(2) obtain r1 where agg: "aggregate picks r = Inr r1" and rest: "router_run es r1 = Inr r'"
    by (auto split: sum.splits)
  have "Manager_Get (RT_sessionMgr r1) sid = Some (SetSlow (slow_after rb (GetSlow s)) s)"
    using aggregate_slow [OF assms(1) agg assms(3,4)] .
  moreover have "slow_after rb (GetSlow s)" using assms(5) by (simp add: slow_after_def)
  moreover have "router_inv r1" "sm_load (RT_buffers r1) sid = Some rb"
    using aggregate_effect [OF assms(1) agg] assms(3) by simp_all
  ultimately show ?thesis
    using router_run_slow [OF _ rest] marks_apart [OF assms(5)] by simp
qed

theorem backpressure_never_released_witness:
  "\<exists>r' s'. router_run [TickAt (\<lambda>_. None), StopRouter] (demo_router (filled 1000000)) = Inr r' \<and>
     Manager_Get (RT_sessionMgr r') 7 = Some s' \<and> GetSlow s'"
proof -
  obtain r' where "aggregate (\<lambda>_. None) (demo_router (filled 1000000)) = Inr r'"
    using demo_high [OF demo_full(1,2)] by blast
  then have run: "router_run [TickAt (\<lambda>_. None), StopRouter] (demo_router (filled 1000000)) = Inr r'" by simp
  have "Manager_Get (RT_sessionMgr (demo_router (filled 1000000))) 7 = Some example_session"
    "sm_load (RT_buffers (demo_router (filled 1000000))) 7 = Some (filled 1000000)"
    by (simp_all add: demo_router_def NewRouter_def example_manager_7 sm_load_def)
  with backpressure_never_released [OF router_inv_demo [OF rb_inv_filled [OF demo_full(1)]] run _ _ demo_full(2)] run
  show ?thesis by blast
qed

end
