(* ===== verification/Graceful.thy ===== *)
theory Graceful
  imports Codec Hub
begin

text \<open>
  \<open>internal/server/graceful.go\<close>: the maintenance broadcast and its frame, the state handed over at a
  graceful restart, the reaction to \<open>SIGUSR2\<close> and the handoff over a Unix socket. The file system and
  the socket (its creation and the connections accepted on it) are arguments; JSON texts are
  represented by their syntax trees.
\<close>

section \<open>The maintenance frame\<close>

record MaintenanceBlock =
  MB_SessionID :: u32
  MB_Length :: u16
  MB_Data :: bytes

record MaintenanceFrame =
  MF_Type :: byte
  MF_SessionCount :: byte
  MF_Sessions :: "MaintenanceBlock list"

fun mf_total_len :: "MaintenanceBlock list \<Rightarrow> nat" where
  "mf_total_len [] = 0"
| "mf_total_len (s # ss) = 4 + 2 + length (MB_Data s) + mf_total_len ss"

fun mf_write :: "bytes \<Rightarrow> nat \<Rightarrow> MaintenanceBlock list \<Rightarrow> bytes go" where
  "mf_write buf off [] = Inr buf"
| "mf_write buf off (s # ss) =
     (case store_at buf off (be32 (MB_SessionID s)) of
        Inl p \<Rightarrow> Inl p
      | Inr buf1 \<Rightarrow>
          (case store_at buf1 (off + 4) (be16 (MB_Length s)) of
             Inl p \<Rightarrow> Inl p
           | Inr buf2 \<Rightarrow>
               (case copy_into buf2 (off + 6) (MB_Data s) of
                  Inl p \<Rightarrow> Inl p
                | Inr buf3 \<Rightarrow> mf_write buf3 (off + 6 + unat (MB_Length s)) ss)))"

definition MF_Serialize :: "MaintenanceFrame \<Rightarrow> bytes go" where
  "MF_Serialize f =
     (let buf = replicate (2 + mf_total_len (MF_Sessions f)) 0;
          buf = buf[0 := MF_Type f];
          buf = buf[1 := MF_SessionCount f]
      in mf_write buf 2 (MF_Sessions f))"

definition block_of :: "MaintenanceBlock \<Rightarrow> SessionBlock" where
  "block_of b = \<lparr>SB_SessionID = MB_SessionID b, SB_Length = MB_Length b, SB_Data = MB_Data b\<rparr>"

definition frame_of :: "MaintenanceFrame \<Rightarrow> Frame" where
  \<comment> \<open>the same frame as a value of the codec\<close>
  "frame_of f = \<lparr>F_Type = MF_Type f, F_SessionCount = MF_SessionCount f,
     F_Sessions = map block_of (MF_Sessions f)\<rparr>"

definition unframe :: "Frame \<Rightarrow> MaintenanceFrame" where
  "unframe f = \<lparr>MF_Type = F_Type f, MF_SessionCount = F_SessionCount f,
     MF_Sessions = map (\<lambda>b. \<lparr>MB_SessionID = SB_SessionID b, MB_Length = SB_Length b, MB_Data = SB_Data b\<rparr>)
       (F_Sessions f)\<rparr>"

definition MF_Deserialize :: "bytes \<Rightarrow> codec_error + MaintenanceFrame" where
  \<comment> \<open>what a client that parses with the codec sees\<close>
  "MF_Deserialize data = (case Deserialize data of Inl e \<Rightarrow> Inl e | Inr f \<Rightarrow> Inr (unframe f))"

definition wf_maintenance :: "MaintenanceFrame \<Rightarrow> bool" where
  "wf_maintenance f \<longleftrightarrow> wf_frame (frame_of f)"

lemma mf_total_len_eq: "mf_total_len bs = total_len (map block_of bs)"
  by (induction bs) (simp_all add: block_of_def)

lemma mf_write_eq: "mf_write buf off bs = write_blocks buf off (map block_of bs)"
  by (induction buf off bs rule: mf_write.induct)
    (auto simp: block_of_def split: sum.split)

lemma MF_Serialize_eq: "MF_Serialize f = Serialize (frame_of f)"
  by (simp add: MF_Serialize_def Serialize_def frame_of_def mf_total_len_eq mf_write_eq)

lemma unframe_frame_of [simp]: "unframe (frame_of f) = f"
  by (cases f) (simp add: unframe_def frame_of_def block_of_def comp_def map_idI)

interpretation maintenance: framing MF_Serialize MF_Deserialize wf_maintenance
proof
  fix f bs rest
  assume wf: "wf_maintenance f"
  then show "\<exists>bs. MF_Serialize f = Inr bs"
    using codec.encode_total [of "frame_of f"] by (simp add: wf_maintenance_def MF_Serialize_eq)
  assume "MF_Serialize f = Inr bs"
  then show "MF_Deserialize (bs @ rest) = Inr f"
    using codec.decode_encode [of "frame_of f" bs rest] wf
    by (simp add: wf_maintenance_def MF_Serialize_eq MF_Deserialize_def)
qed

section \<open>The manager\<close>

record SessionMeta =
  SM_SessionID :: u32
  SM_UserID :: string
  SM_HostID :: string
  SM_Cols :: int
  SM_Rows :: int

record GracefulState =
  GS_Sessions :: "SessionMeta list"
  GS_Version :: string

type_synonym listener = nat

record GracefulManager =
  GM_state :: "GracefulState option"
  GM_listener :: "listener option"
  GM_socketPath :: string
  GM_version :: string

definition NewGracefulManager :: "string \<Rightarrow> string \<Rightarrow> GracefulManager" where
  \<comment> \<open>the hub is passed to the operations\<close>
  "NewGracefulManager socketPath version =
     \<lparr>GM_state = None, GM_listener = None, GM_socketPath = socketPath, GM_version = version\<rparr>"

definition PrepareForGracefulShutdown :: "gateway \<Rightarrow> GracefulManager \<Rightarrow> GracefulState" where
  "PrepareForGracefulShutdown g gm =
     \<lparr>GS_Sessions = sm_range (\<lambda>key p sessions.
          (True, sessions @ [\<lparr>SM_SessionID = K_ID (V_conns g p), SM_UserID = [], SM_HostID = [],
             SM_Cols = 0, SM_Rows = 0\<rparr>])) (H_ConnMap (V_hub g)) [],
      GS_Version = GM_version gm\<rparr>"

definition maintenance_text :: "string \<Rightarrow> bytes" where
  \<comment> \<open>the message is inserted as it is, not escaped\<close>
  "maintenance_text message = to_bytes (''{\"type\":\"maintenance\",\"message\":\"'' @ message @ ''\"}'')"

definition maintenance_frame :: "string \<Rightarrow> MaintenanceFrame" where
  "maintenance_frame message =
     (let data = maintenance_text message in
      \<lparr>MF_Type = 7, MF_SessionCount = 1,
       MF_Sessions = [\<lparr>MB_SessionID = 0, MB_Length = of_nat (length data), MB_Data = data\<rparr>]\<rparr>)"

definition BroadcastMaintenance :: "string \<Rightarrow> gateway \<Rightarrow> gateway go" where
  "BroadcastMaintenance message g =
     (case MF_Serialize (maintenance_frame message) of
        Inl p \<Rightarrow> Inl p | Inr data \<Rightarrow> Hub_Broadcast data g)"

definition restart_message :: string where
  "restart_message = ''Server is restarting, please wait...''"

definition json_of_meta :: "SessionMeta \<Rightarrow> json" where
  "json_of_meta s = JObject
     [(''sessionId'', JNumber (fmt_d (unat (SM_SessionID s)))), (''userId'', JString (SM_UserID s)),
      (''hostId'', JString (SM_HostID s)), (''cols'', JNumber (fmt_int (SM_Cols s))),
      (''rows'', JNumber (fmt_int (SM_Rows s)))]"

definition json_of_state :: "GracefulState option \<Rightarrow> json" where
  \<comment> \<open>\<open>json.Marshal\<close> of the pointer\<close>
  "json_of_state st =
     (case st of None \<Rightarrow> JNull
      | Some s \<Rightarrow> JObject [(''sessions'', JArray (map json_of_meta (GS_Sessions s))),
          (''version'', JString (GS_Version s))])"

record restart_env =
  RE_write :: "(string \<times> json option) option" \<comment> \<open>the error of \<open>os.WriteFile\<close>, and what it left\<close>
  RE_listen :: "string + listener" \<comment> \<open>the answer of \<open>net.Listen\<close>\<close>

record restart_world =
  RW_hub :: gateway
  RW_gm :: GracefulManager
  RW_file :: "json option" \<comment> \<open>\<open>/tmp/gateway_state.json\<close>\<close>
  RW_closed :: "listener list" \<comment> \<open>the listeners closed so far\<close>

definition startHandoffListener :: "restart_env \<Rightarrow> restart_world \<Rightarrow> restart_world" where
  "startHandoffListener env w =
     (let w = (case GM_listener (RW_gm w) of None \<Rightarrow> w | Some l \<Rightarrow> w\<lparr>RW_closed := l # RW_closed w\<rparr>)
      in case RE_listen env of
           Inl err \<Rightarrow> w
         | Inr l \<Rightarrow> w\<lparr>RW_gm := (RW_gm w)\<lparr>GM_listener := Some l\<rparr>\<rparr>)"

definition HandleUSR2Signal :: "restart_env \<Rightarrow> restart_world \<Rightarrow> restart_world go" where
  "HandleUSR2Signal env w =
     (case BroadcastMaintenance restart_message (RW_hub w) of
        Inl p \<Rightarrow> Inl p
      | Inr g \<Rightarrow>
          (let w = w\<lparr>RW_hub := g\<rparr>;
               state = PrepareForGracefulShutdown g (RW_gm w);
               w = w\<lparr>RW_gm := (RW_gm w)\<lparr>GM_state := Some state\<rparr>\<rparr>
           in case RE_write env of
                Some (err, left) \<Rightarrow> Inr (w\<lparr>RW_file := left\<rparr>)
              | None \<Rightarrow>
                  (let w = w\<lparr>RW_file := Some (json_of_state (Some state))\<rparr>
                   in Inr (if GM_socketPath (RW_gm w) \<noteq> [] then startHandoffListener env w else w))))"

section \<open>The handoff\<close>

text \<open>Two goroutines may wait in \<open>Accept\<close> on the listener: the one of \<open>startHandoffListener\<close>, which sends
  the state, and the one of \<open>WaitForHandoff\<close>, which closes the connection. Each accepts once.\<close>

datatype acceptor = StateSender | HandoffWaiter

datatype wait_result = WaitOk | WaitAcceptError string | WaitDeadlineExceeded

fun accept_all :: "acceptor list \<Rightarrow> GracefulManager \<Rightarrow> json option list" where
  \<comment> \<open>what the clients receive, the acceptors taking their connections in this order\<close>
  "accept_all [] gm = []"
| "accept_all (StateSender # as) gm = Some (json_of_state (GM_state gm)) # accept_all as gm"
| "accept_all (HandoffWaiter # as) gm = None # accept_all as gm"

definition WaitForHandoff :: "(string + unit) option \<Rightarrow> GracefulManager \<Rightarrow> wait_result" where
  \<comment> \<open>the argument is the result of \<open>Accept\<close>, \<open>None\<close> if none came within the timeout\<close>
  "WaitForHandoff accepted_conn gm =
     (case GM_listener gm of
        None \<Rightarrow> WaitOk
      | Some l \<Rightarrow>
          (case accepted_conn of
             None \<Rightarrow> WaitDeadlineExceeded
           | Some (Inl err) \<Rightarrow> WaitAcceptError err
           | Some (Inr _) \<Rightarrow> WaitOk))"

section \<open>Lemmas\<close>

lemma length_maintenance_text: "length (maintenance_text message) = length message + 35"
  by (simp add: maintenance_text_def)

lemma wf_maintenance_frame:
  "length message + 35 < 2 ^ 16 \<Longrightarrow> wf_maintenance (maintenance_frame message)"
  unfolding wf_maintenance_def maintenance_frame_def wf_frame_def frame_of_def block_of_def wf_block_def
    Let_def length_maintenance_text
  by (simp add: unat_of_nat length_maintenance_text del: of_nat_add)

lemma range_collects:
  "sm_range (\<lambda>k p acc. (True, acc @ [f p])) m acc = acc @ map (f \<circ> snd) m"
  by (induction m arbitrary: acc) auto

lemma prepare_sessions:
  "map SM_SessionID (GS_Sessions (PrepareForGracefulShutdown g gm)) =
    map (\<lambda>e. K_ID (V_conns g (snd e))) (H_ConnMap (V_hub g))"
  by (simp add: PrepareForGracefulShutdown_def range_collects comp_def)

lemma restart_frame: "\<exists>data. MF_Serialize (maintenance_frame restart_message) = Inr data"
  by (rule maintenance.encode_total) (simp add: wf_maintenance_frame restart_message_def)

lemma usr2_closed:
  assumes "\<exists>p\<in>snd ` set (H_ConnMap (V_hub (RW_hub w))). ch_closed (K_Send (V_conns (RW_hub w) p))"
  shows "HandleUSR2Signal env w = Inl SendOnClosedChannel"
proof -
  obtain data where "MF_Serialize (maintenance_frame restart_message) = Inr data"
    using restart_frame by blast
  then show ?thesis
    by (simp add: HandleUSR2Signal_def BroadcastMaintenance_def Hub_Broadcast_def broadcast_range_closed [OF assms])
qed

section \<open>Properties\<close>




definition restart_world0 :: restart_world where
  "restart_world0 = \<lparr>RW_hub = two_clients, RW_gm = NewGracefulManager [] ''1.0.0'', RW_file = None, RW_closed = []\<rparr>"


text \<open>A handoff can succeed without handing anything over: the new process has one connection, and if
  the goroutine of \<open>WaitForHandoff\<close> accepts it, the wait reports success and the state is never sent.\<close>

lemma handoff_race:
  "WaitForHandoff (Some (Inr ())) gm = WaitOk" "accept_all [HandoffWaiter] gm = [None]"
  by (simp_all add: WaitForHandoff_def split: option.split)

end
