(* ===== verification/Hashes.thy ===== *)
theory Hashes
  imports Prelude "HOL-Library.Code_Target_Nat"
begin

text \<open>
  The hash functions the diff engine takes from Go's standard library, \<open>crypto/md5\<close> (RFC 1321) and
  \<open>crypto/sha1\<close> (RFC 3174), with \<open>hex.EncodeToString\<close>, as executable functions on byte lists.
\<close>

section \<open>Words\<close>

definition rol :: "nat \<Rightarrow> u32 \<Rightarrow> u32" where
  "rol k w = push_bit k w OR drop_bit (32 - k) w"

definition le32 :: "u32 \<Rightarrow> byte list" where
  "le32 x = [ucast x, ucast (drop_bit 8 x), ucast (drop_bit 16 x), ucast (drop_bit 24 x)]"

fun words_of :: "(byte list \<Rightarrow> u32) \<Rightarrow> nat \<Rightarrow> byte list \<Rightarrow> u32 list" where
  "words_of dec 0 b = []"
| "words_of dec (Suc n) b = dec b # words_of dec n (drop 4 b)"

definition of_le32 :: "byte list \<Rightarrow> u32" where
  "of_le32 b = push_bit 24 (ucast (b ! 3)) OR push_bit 16 (ucast (b ! 2)) OR push_bit 8 (ucast (b ! 1)) OR
     ucast (b ! 0)"

definition padding :: "nat \<Rightarrow> byte list" where
  \<comment> \<open>0x80 and zeros up to eight bytes before a multiple of 64\<close>
  "padding n = 0x80 # replicate ((119 - n mod 64) mod 64) 0"

function blocks :: "byte list \<Rightarrow> byte list list" where
  "blocks b = (if b = [] then [] else take 64 b # blocks (drop 64 b))"
  by pat_completeness auto
termination
  by (relation "measure length") auto

declare blocks.simps [simp del]

section \<open>MD5\<close>

type_synonym quad = "u32 \<times> u32 \<times> u32 \<times> u32"

definition md5_table :: "u32 list" where
  "md5_table =
     [0xD76AA478, 0xE8C7B756, 0x242070DB, 0xC1BDCEEE,
      0xF57C0FAF, 0x4787C62A, 0xA8304613, 0xFD469501,
      0x698098D8, 0x8B44F7AF, 0xFFFF5BB1, 0x895CD7BE,
      0x6B901122, 0xFD987193, 0xA679438E, 0x49B40821,
      0xF61E2562, 0xC040B340, 0x265E5A51, 0xE9B6C7AA,
      0xD62F105D, 0x02441453, 0xD8A1E681, 0xE7D3FBC8,
      0x21E1CDE6, 0xC33707D6, 0xF4D50D87, 0x455A14ED,
      0xA9E3E905, 0xFCEFA3F8, 0x676F02D9, 0x8D2A4C8A,
      0xFFFA3942, 0x8771F681, 0x6D9D6122, 0xFDE5380C,
      0xA4BEEA44, 0x4BDECFA9, 0xF6BB4B60, 0xBEBFBC70,
      0x289B7EC6, 0xEAA127FA, 0xD4EF3085, 0x04881D05,
      0xD9D4D039, 0xE6DB99E5, 0x1FA27CF8, 0xC4AC5665,
      0xF4292244, 0x432AFF97, 0xAB9423A7, 0xFC93A039,
      0x655B59C3, 0x8F0CCC92, 0xFFEFF47D, 0x85845DD1,
      0x6FA87E4F, 0xFE2CE6E0, 0xA3014314, 0x4E0811A1,
      0xF7537E82, 0xBD3AF235, 0x2AD7D2BB, 0xEB86D391]"

definition md5_shifts :: "nat list" where
  "md5_shifts = concat (map (\<lambda>r. concat (replicate 4 r))
     [[7, 12, 17, 22], [5, 9, 14, 20], [4, 11, 16, 23], [6, 10, 15, 21]])"

definition md5_mix :: "nat \<Rightarrow> u32 \<Rightarrow> u32 \<Rightarrow> u32 \<Rightarrow> u32 \<times> nat" where
  \<comment> \<open>the round function and the index of the message word\<close>
  "md5_mix i b c d =
     (if i < 16 then ((b AND c) OR (NOT b AND d), i)
      else if i < 32 then ((d AND b) OR (NOT d AND c), (5 * i + 1) mod 16)
      else if i < 48 then (b XOR c XOR d, (3 * i + 5) mod 16)
      else (c XOR (b OR NOT d), (7 * i) mod 16))"

fun md5_rounds :: "u32 list \<Rightarrow> (nat \<times> u32 \<times> nat) list \<Rightarrow> quad \<Rightarrow> quad" where
  "md5_rounds m [] q = q"
| "md5_rounds m ((i, k, s) # rest) (a, b, c, d) =
     (let (f, g) = md5_mix i b c d
      in md5_rounds m rest (d, b + rol s (a + f + k + m ! g), b, c))"

definition md5_block :: "byte list \<Rightarrow> quad \<Rightarrow> quad" where
  "md5_block blk q =
     (case (q, md5_rounds (words_of of_le32 16 blk) (zip [0..<64] (zip md5_table md5_shifts)) q) of
        ((a, b, c, d), (a', b', c', d')) \<Rightarrow> (a + a', b + b', c + c', d + d'))"

definition le64 :: "u64 \<Rightarrow> byte list" where
  "le64 x = le32 (ucast x) @ le32 (ucast (drop_bit 32 x))"

definition md5_Sum :: "byte list \<Rightarrow> byte list" where
  "md5_Sum b =
     (case List.fold md5_block (blocks (b @ padding (length b) @ le64 (of_nat (8 * length b))))
         (0x67452301, 0xEFCDAB89, 0x98BADCFE, 0x10325476) of
        (a, b, c, d) \<Rightarrow> le32 a @ le32 b @ le32 c @ le32 d)"

section \<open>SHA-1\<close>

fun sha1_schedule :: "nat \<Rightarrow> u32 list \<Rightarrow> u32 list" where
  \<comment> \<open>the last sixteen words, most recent first\<close>
  "sha1_schedule 0 w = []"
| "sha1_schedule (Suc n) w =
     (let x = rol 1 (w ! 2 XOR w ! 7 XOR w ! 13 XOR w ! 15) in x # sha1_schedule n (x # butlast w))"

definition sha1_mix :: "nat \<Rightarrow> u32 \<Rightarrow> u32 \<Rightarrow> u32 \<Rightarrow> u32 \<times> u32" where
  "sha1_mix t b c d =
     (if t < 20 then ((b AND c) OR (NOT b AND d), 0x5A827999)
      else if t < 40 then (b XOR c XOR d, 0x6ED9EBA1)
      else if t < 60 then ((b AND c) OR (b AND d) OR (c AND d), 0x8F1BBCDC)
      else (b XOR c XOR d, 0xCA62C1D6))"

fun sha1_rounds :: "(nat \<times> u32) list \<Rightarrow> u32 \<times> quad \<Rightarrow> u32 \<times> quad" where
  "sha1_rounds [] h = h"
| "sha1_rounds ((t, w) # rest) (a, b, c, d, e) =
     (let (f, k) = sha1_mix t b c d
      in sha1_rounds rest (rol 5 a + f + e + w + k, a, rol 30 b, c, d))"

definition sha1_block :: "byte list \<Rightarrow> u32 \<times> quad \<Rightarrow> u32 \<times> quad" where
  "sha1_block blk h =
     (let w = words_of of_be32 16 blk
      in case (h, sha1_rounds (zip [0..<80] (w @ sha1_schedule 64 (rev w))) h) of
           ((a, b, c, d, e), (a', b', c', d', e')) \<Rightarrow> (a + a', b + b', c + c', d + d', e + e'))"

definition be64 :: "u64 \<Rightarrow> byte list" where
  "be64 x = be32 (ucast (drop_bit 32 x)) @ be32 (ucast x)"

definition sha1_Sum :: "byte list \<Rightarrow> byte list" where
  "sha1_Sum b =
     (case List.fold sha1_block (blocks (b @ padding (length b) @ be64 (of_nat (8 * length b))))
         (0x67452301, 0xEFCDAB89, 0x98BADCFE, 0x10325476, 0xC3D2E1F0) of
        (a, b, c, d, e) \<Rightarrow> be32 a @ be32 b @ be32 c @ be32 d @ be32 e)"

section \<open>Hexadecimal\<close>

definition hex_digit :: "nat \<Rightarrow> char" where
  "hex_digit n = char_of (if n < 10 then 48 + n else 87 + n)"

definition hex_encode :: "byte list \<Rightarrow> string" where
  "hex_encode b = concat (map (\<lambda>x. [hex_digit (unat x div 16), hex_digit (unat x mod 16)]) b)"

section \<open>Lemmas\<close>

lemma length_le32 [simp]: "length (le32 x) = 4"
  by (simp add: le32_def)

lemma length_md5_Sum: "length (md5_Sum b) = 16"
  by (simp add: md5_Sum_def split: prod.split)

lemma length_sha1_Sum: "length (sha1_Sum b) = 20"
  by (simp add: sha1_Sum_def split: prod.split)

lemma length_hex_encode: "length (hex_encode b) = 2 * length b"
  by (induction b) (simp_all add: hex_encode_def)

lemma hex_digit_inj: "m < 16 \<Longrightarrow> n < 16 \<Longrightarrow> hex_digit m = hex_digit n \<Longrightarrow> m = n"
  by (auto simp: hex_digit_def char_of_eq_iff take_bit_eq_mod split: if_splits)

lemma hex_encode_inj: "hex_encode a = hex_encode b \<longleftrightarrow> a = b"
proof
  show "hex_encode a = hex_encode b \<Longrightarrow> a = b"
  proof (induction a arbitrary: b)
    case Nil
    then show ?case by (cases b) (simp_all add: hex_encode_def)
  next
    case (Cons x a)
    then obtain y c where b: "b = y # c" by (cases b) (simp_all add: hex_encode_def)
    have small: "unat z div 16 < 16" for z :: byte
      using unsigned_less [of z, where 'a = nat] by simp
    have "hex_digit (unat x div 16) = hex_digit (unat y div 16)"
      "hex_digit (unat x mod 16) = hex_digit (unat y mod 16)" "hex_encode a = hex_encode c"
      using Cons.prems by (simp_all add: b hex_encode_def)
    moreover from this have "unat x div 16 = unat y div 16" "unat x mod 16 = unat y mod 16"
      using hex_digit_inj small by auto
    ultimately have "unat x = unat y" and "hex_encode a = hex_encode c"
      by (metis div_mult_mod_eq, simp)
    then show ?case using Cons.IH by (simp add: b word_unat_eq_iff)
  qed
qed simp

end
