(* ===== verification/Diff.thy ===== *)
theory Diff
  imports RegexpScan Hashes
begin

text \<open>
  \<open>internal/diff/engine.go\<close>: comparing the output of the same command on several hosts. The package
  variables are three compiled expressions; \<open>Process\<close> removes escape sequences and noise, splits into
  lines and hashes; \<open>Compare\<close> looks at exit codes and hashes. The expressions are matched by the model
  of Go's \<open>regexp\<close>, the hashes are those of \<open>Hashes\<close>.
\<close>

section \<open>The package variables\<close>

definition ansi_pattern :: string where
  \<comment> \<open>an escaped \<open>x1b\<close>, an escaped bracket, parameters, a letter\<close>
  "ansi_pattern = [CHR 0x5C] @ ''x1b'' @ [CHR 0x5C] @ ''[[0-9;]*[A-Za-z]''"

definition noise_pattern :: string where
  \<comment> \<open>a class of box-drawing runes, the first of them after a backslash; then spaces up to the end\<close>
  "noise_pattern = ''['' @ [CHR 0x5C] @
      [CHR 0xE2, CHR 0x94, CHR 0x82, CHR 0xE2, CHR 0x94, CHR 0x9C, CHR 0xE2, CHR 0x94, CHR 0x94,
       CHR 0xE2, CHR 0x94, CHR 0xA4, CHR 0xE2, CHR 0x94, CHR 0xAC, CHR 0xE2, CHR 0x94, CHR 0xB4,
       CHR 0xE2, CHR 0x94, CHR 0xBC, CHR 0xE2, CHR 0x94, CHR 0x80] @
      '']+'' @ [CHR 0x5C] @ ''s*$''"

definition timestamp_pattern :: string where
  "timestamp_pattern = [CHR 0x5C] @ ''['' @ [CHR 0x5C] @ ''d{2}:'' @ [CHR 0x5C] @ ''d{2}:'' @
     [CHR 0x5C] @ ''d{2}'' @ [CHR 0x5C] @ '']''"

record DiffEngine =
  D_ansiRegex :: re
  D_noiseRegex :: re
  D_timestampRegex :: re

definition package_vars :: "DiffEngine go" where
  \<comment> \<open>the initialisation of the package, in the order of the declarations\<close>
  "package_vars =
     (case MustCompile ansi_pattern of Inl p \<Rightarrow> Inl p
      | Inr a \<Rightarrow> (case MustCompile noise_pattern of Inl p \<Rightarrow> Inl p
          | Inr n \<Rightarrow> (case MustCompile timestamp_pattern of Inl p \<Rightarrow> Inl p
              | Inr t \<Rightarrow> Inr \<lparr>D_ansiRegex = a, D_noiseRegex = n, D_timestampRegex = t\<rparr>)))"

definition NewDiffEngine :: "DiffEngine \<Rightarrow> DiffEngine" where
  \<comment> \<open>the argument holds the package variables\<close>
  "NewDiffEngine vars = \<lparr>D_ansiRegex = D_ansiRegex vars, D_noiseRegex = D_noiseRegex vars,
     D_timestampRegex = D_timestampRegex vars\<rparr>"

section \<open>Operations\<close>

record DiffResult =
  DR_SessionID :: u32
  DR_RawOutput :: string
  DR_CleanOutput :: string
  DR_Lines :: "string list"
  DR_MD5Hash :: string
  DR_SHA1Hash :: string
  DR_ExitCode :: int
  DR_IsDifferent :: bool

definition StripANSI :: "DiffEngine \<Rightarrow> string \<Rightarrow> string" where
  "StripANSI e input = ReplaceAllString (D_ansiRegex e) input []"

definition FilterNoise :: "DiffEngine \<Rightarrow> string \<Rightarrow> string" where
  "FilterNoise e input =
     (let result = ReplaceAllString (D_noiseRegex e) input []
      in ReplaceAllString (D_timestampRegex e) result [])"

fun Split_lines :: "string \<Rightarrow> string list" where
  \<comment> \<open>\<open>strings.Split(s, "\n")\<close>\<close>
  "Split_lines [] = [[]]"
| "Split_lines (c # s) =
     (if c = CHR 0x0A then [] # Split_lines s
      else case Split_lines s of l # ls \<Rightarrow> (c # l) # ls | [] \<Rightarrow> [[c]])"

definition calcMD5 :: "string \<Rightarrow> string" where
  "calcMD5 data = hex_encode (md5_Sum (to_bytes data))"

definition calcSHA1 :: "string \<Rightarrow> string" where
  "calcSHA1 data = hex_encode (sha1_Sum (to_bytes data))"

definition Process :: "DiffEngine \<Rightarrow> u32 \<Rightarrow> byte list \<Rightarrow> int \<Rightarrow> DiffResult" where
  "Process e sid rawOutput exitCode =
     (let raw = to_string rawOutput;
          clean = StripANSI e raw;
          clean = FilterNoise e clean
      in \<lparr>DR_SessionID = sid, DR_RawOutput = raw, DR_CleanOutput = clean, DR_Lines = Split_lines clean,
          DR_MD5Hash = calcMD5 clean, DR_SHA1Hash = calcSHA1 clean, DR_ExitCode = exitCode,
          DR_IsDifferent = False\<rparr>)"

definition Compare :: "DiffResult \<Rightarrow> DiffResult \<Rightarrow> bool" where
  "Compare result1 result2 =
     (if DR_ExitCode result1 \<noteq> DR_ExitCode result2 then True
      else if DR_MD5Hash result1 \<noteq> DR_MD5Hash result2 then True else False)"

section \<open>A scanner for escape sequences\<close>

definition ansi_param :: "rune \<Rightarrow> bool" where
  "ansi_param r \<longleftrightarrow> (48 \<le> r \<and> r \<le> 57) \<or> r = 59"

definition ansi_final :: "rune \<Rightarrow> bool" where
  "ansi_final r \<longleftrightarrow> (65 \<le> r \<and> r \<le> 90) \<or> (97 \<le> r \<and> r \<le> 122)"

definition ansi_len :: "glyph list \<Rightarrow> nat option" where
  \<comment> \<open>the length of the escape sequence at the start of the text\<close>
  "ansi_len s =
     (case s of
        e # b # t \<Rightarrow>
          if fst e = 27 \<and> fst b = 91 then
            (case drop (span ansi_param t) t of
               g # _ \<Rightarrow> if ansi_final (fst g) then Some (span ansi_param t + 3) else None
             | [] \<Rightarrow> None)
          else None
      | _ \<Rightarrow> None)"

definition ansi_re :: re where
  "ansi_re = ReCat (ReCat (ReCat (ReLit False 27) (ReLit False 91))
     (ReStar True (ReClass False False [(48, 57), (59, 59)]))) (ReClass False False [(65, 90), (97, 122)])"

lemma Compile_ansi: "Compile ansi_pattern = Inr ansi_re"
  by code_simp

lemma Compile_noise: "Compile noise_pattern = Inl ErrInvalidEscape"
  by code_simp

lemma ansi_param_class: "class_matches False False [(48, 57), (59, 59)] = ansi_param"
  by (auto simp: fun_eq_iff class_matches_def in_ranges_def ansi_param_def)

lemma ansi_final_class: "class_matches False False [(65, 90), (97, 122)] = ansi_final"
  by (auto simp: fun_eq_iff class_matches_def in_ranges_def ansi_final_def)

lemma ansi_apart: "ansi_param r \<Longrightarrow> \<not> ansi_final r"
  by (auto simp: ansi_param_def ansi_final_def)

lemma span_inside: "k < span P s \<Longrightarrow> \<exists>g t. drop k s = g # t \<and> P (fst g)"
proof (induction s arbitrary: k)
  case (Cons g s)
  then show ?case by (cases k) (auto split: if_splits)
qed simp

lemma ansi_tail:
  "match_re (ReCat (ReStar True (ReClass False False [(48, 57), (59, 59)]))
      (ReClass False False [(65, 90), (97, 122)])) (i, t, cs) =
    (case drop (span ansi_param t) t of
       g # u \<Rightarrow> if ansi_final (fst g) then [(i + span ansi_param t + 1, u, cs)] else []
     | [] \<Rightarrow> [])"
proof -
  let ?F = "match_re (ReClass False False [(65, 90), (97, 122)])"
  have F: "?F (j, u, cs) = (case u of g # u' \<Rightarrow> if ansi_final (fst g) then [(Suc j, u', cs)] else [] | [] \<Rightarrow> [])"
    for j u by (simp add: ansi_final_class split: list.split)
  have "?F (i + k, drop k t, cs) = []" if "k < span ansi_param t" for k
    using span_inside [OF that] ansi_apart by (auto simp: ansi_final_class)
  then show ?thesis
    unfolding match_re.simps(6) match_star_class ansi_param_class
    by (subst star_then) (simp_all add: F split: list.split del: match_re.simps)
qed

lemma ansi_matches: "matches_by ansi_re ansi_len"
proof -
  have head: "match_re ansi_re (i, s, []) =
      (case s of e # b # t \<Rightarrow> if fst e = 27 \<and> fst b = 91
        then match_re (ReCat (ReStar True (ReClass False False [(48, 57), (59, 59)]))
          (ReClass False False [(65, 90), (97, 122)])) (i + 2, t, []) else []
       | _ \<Rightarrow> [])" for i s
    by (auto simp: ansi_re_def lit_matches_def split: list.splits simp del: match_re.simps(8))
  have tail: "drop (span ansi_param t) t = g # u \<Longrightarrow> span ansi_param t < length t \<and> u = drop (Suc (span ansi_param t)) t" for t g u
    by (metis drop_eq_Nil2 list.distinct(1) not_le_imp_less drop_Suc tl_drop list.sel(3))
  show ?thesis
    unfolding matches_by_def head ansi_tail ansi_len_def
    by (auto simp: numeral_3_eq_3 split: list.splits dest!: tail)
qed

definition digit :: "rune \<Rightarrow> bool" where
  "digit r \<longleftrightarrow> 48 \<le> r \<and> r \<le> 57"

definition timestamp_shape :: "(rune \<Rightarrow> bool) list" where
  \<comment> \<open>\<open>[12:34:56]\<close>\<close>
  "timestamp_shape = [(=) 91, digit, digit, (=) 58, digit, digit, (=) 58, digit, digit, (=) 93]"

definition timestamp_len :: "glyph list \<Rightarrow> nat option" where
  "timestamp_len s = (if fits timestamp_shape s then Some 10 else None)"

lemma Compile_timestamp: "case Compile timestamp_pattern of
    Inr r \<Rightarrow> shape r = Some timestamp_shape | Inl e \<Rightarrow> False"
proof -
  have "Compile timestamp_pattern = Inr (ReCat (ReCat (ReCat (ReCat (ReCat (ReCat (ReLit False 91)
      (ReCat (ReClass False False [(48, 57)]) (ReClass False False [(48, 57)]))) (ReLit False 58))
      (ReCat (ReClass False False [(48, 57)]) (ReClass False False [(48, 57)]))) (ReLit False 58))
      (ReCat (ReClass False False [(48, 57)]) (ReClass False False [(48, 57)]))) (ReLit False 93))"
    by code_simp
  moreover have "class_matches False False [(48, 57)] = digit" "lit_matches False c = (=) c" for c
    by (auto simp: fun_eq_iff class_matches_def in_ranges_def digit_def lit_matches_def)
  ultimately show ?thesis by (simp add: timestamp_shape_def)
qed

definition compiled :: "DiffEngine \<Rightarrow> bool" where
  \<comment> \<open>an engine with the package's two good expressions, whatever stands for the third\<close>
  "compiled e \<longleftrightarrow> Compile ansi_pattern = Inr (D_ansiRegex e) \<and> Compile timestamp_pattern = Inr (D_timestampRegex e)"

lemma timestamp_matches: "compiled e \<Longrightarrow> matches_by (D_timestampRegex e) timestamp_len"
proof -
  assume "compiled e"
  then have "shape (D_timestampRegex e) = Some timestamp_shape"
    using Compile_timestamp by (simp add: compiled_def)
  then have "matches_by (D_timestampRegex e) (\<lambda>s. if fits timestamp_shape s then Some (length timestamp_shape) else None)"
    by (rule matches_by_shape) (simp add: timestamp_shape_def)
  moreover have "length timestamp_shape = 10" by (simp add: timestamp_shape_def)
  ultimately show ?thesis by (simp add: timestamp_len_def [abs_def] cong: if_cong)
qed

lemma StripANSI_scan: "compiled e \<Longrightarrow> StripANSI e input = bytes_of (strip ansi_len (glyphs input))"
  using delete_all [OF ansi_matches] by (simp add: StripANSI_def compiled_def Compile_ansi)

lemma timestamp_scan:
  "compiled e \<Longrightarrow> ReplaceAllString (D_timestampRegex e) s [] = bytes_of (strip timestamp_len (glyphs s))"
  by (rule delete_all [OF timestamp_matches])

text \<open>Splitting into lines.\<close>

fun join_lines :: "string list \<Rightarrow> string" where
  "join_lines [] = []"
| "join_lines [l] = l"
| "join_lines (l # ls) = l @ CHR 0x0A # join_lines ls"

lemma Split_lines_Cons: "\<exists>l ls. Split_lines s = l # ls"
  by (cases s) (auto split: list.split)

lemma join_split: "join_lines (Split_lines s) = s"
proof (induction s)
  case (Cons c s)
  obtain l ls where s: "Split_lines s = l # ls" using Split_lines_Cons by blast
  show ?case
  proof (cases "c = CHR 0x0A")
    case True
    then show ?thesis using Cons s by simp
  next
    case False
    then show ?thesis using Cons s by (cases ls) simp_all
  qed
qed simp

lemma split_no_newline: "l \<in> set (Split_lines s) \<Longrightarrow> CHR 0x0A \<notin> set l"
  by (induction s arbitrary: l) (auto split: list.splits if_splits)

definition clean_of :: "DiffEngine \<Rightarrow> byte list \<Rightarrow> string" where
  "clean_of e raw = FilterNoise e (StripANSI e (to_string raw))"

section \<open>Properties\<close>

text \<open>C34: the package cannot be initialised. The noise pattern escapes a rune outside ASCII, which
  \<open>regexp.Compile\<close> rejects, so \<open>MustCompile\<close> panics before any program that imports the package reaches
  its \<open>main\<close>; the other two patterns are accepted.\<close>

theorem diff_package_panics:
  "package_vars = Inl (PanicValue ''regexp: Compile'') \<and> Compile noise_pattern = Inl ErrInvalidEscape \<and>
   (\<exists>a t. Compile ansi_pattern = Inr a \<and> Compile timestamp_pattern = Inr t)"
proof -
  obtain t where "Compile timestamp_pattern = Inr t"
    using Compile_timestamp by (auto split: sum.splits)
  then show ?thesis by (simp add: package_vars_def MustCompile_def Compile_ansi Compile_noise)
qed

text \<open>C17: the expression for escape sequences is a left-to-right scanner: \<open>StripANSI\<close> deletes exactly the
  texts ESC, bracket, digits and semicolons, letter, as the scanner \<open>ansi_len\<close> finds them, and
  keeps every other byte, invalid UTF-8 included. One pass is not enough: what is left may contain an
  escape sequence again.\<close>

theorem strip_ansi_scanner:
  assumes "compiled e"
  shows "StripANSI e input = bytes_of (strip ansi_len (glyphs input)) \<and>
    (\<exists>text. StripANSI e (StripANSI e text) \<noteq> StripANSI e text)"
proof -
  let ?esc = "[CHR 0x1B]"
  have "bytes_of (strip ansi_len (glyphs (?esc @ ''['' @ ?esc @ ''[0m31m''))) = ?esc @ ''[31m''"
    by code_simp
  moreover have "bytes_of (strip ansi_len (glyphs (?esc @ ''[31m''))) = []" by code_simp
  ultimately have "StripANSI e (StripANSI e (?esc @ ''['' @ ?esc @ ''[0m31m'')) \<noteq>
      StripANSI e (?esc @ ''['' @ ?esc @ ''[0m31m'')"
    using StripANSI_scan [OF assms] by simp
  then show ?thesis using StripANSI_scan [OF assms] by blast
qed

definition demo_engine :: DiffEngine where
  \<comment> \<open>with an expression that never matches in the place of the rejected one\<close>
  "demo_engine = \<lparr>D_ansiRegex = ansi_re, D_noiseRegex = ReClass False False [],
     D_timestampRegex = (case Compile timestamp_pattern of Inr r \<Rightarrow> r | Inl _ \<Rightarrow> ReEmpty)\<rparr>"

lemma compiled_demo: "compiled demo_engine"
  using Compile_timestamp by (auto simp: compiled_def demo_engine_def Compile_ansi split: sum.splits)

theorem strip_ansi_scanner_witness:
  "StripANSI demo_engine ([CHR 0x1B] @ ''[1;31mred'' @ [CHR 0x1B] @ ''[0m'') = ''red''"
proof -
  have "bytes_of (strip ansi_len (glyphs ([CHR 0x1B] @ ''[1;31mred'' @ [CHR 0x1B] @ ''[0m''))) = ''red''"
    by code_simp
  then show ?thesis using strip_ansi_scanner [OF compiled_demo] by simp
qed

text \<open>What a result holds. The lines of a result contain no line feed and joined with line feeds give
  the cleaned text; its hashes are 32 and 40 hexadecimal digits of that text; and two results differ
  exactly when the exit codes or the MD5 digests of the cleaned texts differ, so never because of the
  session, the escape sequences or the time stamps removed.\<close>

theorem process_compare_contract:
  "join_lines (DR_Lines (Process e sid raw code)) = clean_of e raw \<and>
   (\<nexists>l. l \<in> set (DR_Lines (Process e sid raw code)) \<and> CHR 0x0A \<in> set l) \<and>
   length (DR_MD5Hash (Process e sid raw code)) = 32 \<and> length (DR_SHA1Hash (Process e sid raw code)) = 40 \<and>
   (Compare (Process e sid raw code) (Process e sid' raw' code') \<longleftrightarrow>
      code \<noteq> code' \<or> md5_Sum (to_bytes (clean_of e raw)) \<noteq> md5_Sum (to_bytes (clean_of e raw')))"
  by (auto simp: Process_def Compare_def Let_def clean_of_def join_split calcMD5_def calcSHA1_def
      length_hex_encode length_md5_Sum length_sha1_Sum hex_encode_inj dest: split_no_newline)

end
