(* ===== verification/Probe.thy ===== *)
theory Probe
  imports Diff Session
begin

text \<open>
  \<open>internal/session/context_checker.go\<close>: probing what runs in a terminal. A probe byte is written, then
  the answers are read and accumulated until they look like a shell prompt, contain an escape
  sequence, or the deadline passes. What the stream answers and the clock are a script: one entry per
  round of the loop, with the clock reading of the loop condition and the result of \<open>Read\<close>; at the end
  of the script the loop is still waiting in \<open>Read\<close>.
\<close>

section \<open>Operations\<close>

definition ProbeTimeout :: duration where "ProbeTimeout = 2 * Second"

definition shell_pattern :: string where
  \<comment> \<open>a class of the escaped dollar and the hash, then spaces up to the end\<close>
  "shell_pattern = ''['' @ [CHR 0x5C] @ ''$#]'' @ [CHR 0x5C] @ ''s*$''"

definition shellPromptRegex :: "re go" where
  "shellPromptRegex = MustCompile shell_pattern"

definition tuiEscapeRegex :: "re go" where
  "tuiEscapeRegex = MustCompile ([CHR 0x5C] @ ''x1b'' @ [CHR 0x5C] @ ''[[0-9;]*[A-Za-z]'')"

definition Match :: "re go \<Rightarrow> byte list \<Rightarrow> bool" where
  \<comment> \<open>\<open>Regexp.Match\<close> of an initialised package variable\<close>
  "Match rx b = (case rx of Inl p \<Rightarrow> False | Inr r \<Rightarrow> MatchString r (to_string b))"

record ProbeResult =
  PR_SessionID :: u32
  PR_PromptState :: PromptState
  PR_RawResponse :: "byte list"

datatype probe_error = ProbeSessionNotFound | ProbeWriteError string | ProbeReadError string

datatype read_result =
    ReadBytes "byte list"
  | ReadTimeout \<comment> \<open>an error for which \<open>os.IsTimeout\<close> holds\<close>
  | ReadEOF \<comment> \<open>an error whose text is \<open>EOF\<close>\<close>
  | ReadFailed string

fun probe_loop ::
    "u32 \<Rightarrow> time \<Rightarrow> (time \<times> read_result) list \<Rightarrow> byte list \<Rightarrow> (probe_error + ProbeResult) option" where
  "probe_loop sid deadline [] raw = None"
| "probe_loop sid deadline ((now, r) # script) raw =
     (let result = (\<lambda>st raw. Some (Inr \<lparr>PR_SessionID = sid, PR_PromptState = st, PR_RawResponse = raw\<rparr>))
      in if \<not> now < deadline then result PromptUnknown raw
         else case r of
           ReadTimeout \<Rightarrow> result PromptUnknown raw
         | ReadEOF \<Rightarrow> result PromptUnknown raw
         | ReadFailed err \<Rightarrow> Some (Inl (ProbeReadError err))
         | ReadBytes b \<Rightarrow>
             (let raw = raw @ b
              in if Match shellPromptRegex raw then result PromptShell raw
                 else if Match tuiEscapeRegex raw then result PromptTUI raw
                 else probe_loop sid deadline script raw))"

definition ProbeSession ::
    "Manager \<Rightarrow> u32 \<Rightarrow> string option \<Rightarrow> time \<Rightarrow> (time \<times> read_result) list \<Rightarrow>
     (probe_error + ProbeResult) option go" where
  \<comment> \<open>\<open>write_error\<close> is the result of writing the probe, \<open>now\<close> the clock at the computation of the deadline;
    \<open>Inr None\<close>: still waiting\<close>
  "ProbeSession mgr sid write_error now script =
     (case Manager_Get mgr sid of
        None \<Rightarrow> Inr (Some (Inl ProbeSessionNotFound))
      | Some s \<Rightarrow>
          (case S_ShellStream s of
             None \<Rightarrow> Inl NilDereference
           | Some stream \<Rightarrow>
               (case write_error of
                  Some err \<Rightarrow> Inr (Some (Inl (ProbeWriteError err)))
                | None \<Rightarrow> Inr (probe_loop sid (now + ProbeTimeout) script []))))"

section \<open>The prompt expression\<close>

definition space_rune :: "rune \<Rightarrow> bool" where
  "space_rune r \<longleftrightarrow> r = 9 \<or> r = 10 \<or> r = 12 \<or> r = 13 \<or> r = 32"

definition shell_re :: re where
  "shell_re = ReCat (ReCat (ReClass False False [(36, 36), (35, 35)])
     (ReStar True (ReClass False False [(9, 10), (12, 13), (32, 32)]))) ReEnd"

lemma Compile_shell: "Compile shell_pattern = Inr shell_re"
  by code_simp

lemma space_class: "class_matches False False [(9, 10), (12, 13), (32, 32)] = space_rune"
  by (auto simp: fun_eq_iff class_matches_def in_ranges_def space_rune_def)

definition at_prompt :: "glyph list \<Rightarrow> bool" where
  \<comment> \<open>a dollar or a hash followed by nothing but white space\<close>
  "at_prompt s \<longleftrightarrow> (case s of g # t \<Rightarrow> (fst g = 36 \<or> fst g = 35) \<and> (\<forall>h\<in>set t. space_rune (fst h)) | [] \<Rightarrow> False)"

lemma spaces_to_end:
  "match_re (ReCat (ReStar True (ReClass False False [(9, 10), (12, 13), (32, 32)])) ReEnd) (i, t, cs) =
    (if \<forall>h\<in>set t. space_rune (fst h) then [(i + length t, [], cs)] else [])"
proof -
  have "match_re ReEnd (i + k, drop k t, cs) = []" if "k < span space_rune t" for k
    using span_inside [OF that] by auto
  then have "match_re (ReCat (ReStar True (ReClass False False [(9, 10), (12, 13), (32, 32)])) ReEnd) (i, t, cs) =
      match_re ReEnd (i + span space_rune t, drop (span space_rune t) t, cs)"
    unfolding match_re.simps(6) match_star_class space_class by (rule star_then)
  moreover have "drop (span space_rune t) t = [] \<longleftrightarrow> (\<forall>h\<in>set t. space_rune (fst h))"
    using span_le [of space_rune t] span_all [of space_rune t] by auto
  ultimately show ?thesis using span_all [of space_rune t] by auto
qed

lemma match_shell: "match_re shell_re (i, s, cs) \<noteq> [] \<longleftrightarrow> at_prompt s"
proof (cases s)
  case Nil
  then show ?thesis by (simp add: shell_re_def at_prompt_def)
next
  case (Cons g t)
  have sign: "class_matches False False [(36, 36), (35, 35)] (fst g) \<longleftrightarrow> fst g = 36 \<or> fst g = 35"
    by (auto simp: class_matches_def in_ranges_def)
  have "match_re shell_re (i, g # t, cs) = (if fst g = 36 \<or> fst g = 35
      then match_re (ReCat (ReStar True (ReClass False False [(9, 10), (12, 13), (32, 32)])) ReEnd) (Suc i, t, cs)
      else [])"
    using sign by (simp add: shell_re_def del: match_re.simps(8))
  then show ?thesis unfolding Cons spaces_to_end at_prompt_def by simp
qed

lemma Match_shell: "Match shellPromptRegex b \<longleftrightarrow>
    (\<exists>k\<le>length (glyphs (to_string b)). at_prompt (drop k (glyphs (to_string b))))"
  by (simp add: Match_def shellPromptRegex_def MustCompile_def Compile_shell MatchString_iff match_shell)

lemma Match_tui: "Match tuiEscapeRegex b \<longleftrightarrow>
    (\<exists>k\<le>length (glyphs (to_string b)). ansi_len (drop k (glyphs (to_string b))) \<noteq> None)"
proof -
  have tui: "tuiEscapeRegex = Inr ansi_re"
    using Compile_ansi by (simp add: tuiEscapeRegex_def MustCompile_def ansi_pattern_def)
  show ?thesis unfolding Match_def tui sum.case MatchString_by [OF ansi_matches] ..
qed

lemma Match_empty: "\<not> Match shellPromptRegex []" "\<not> Match tuiEscapeRegex []"
  by (simp_all add: Match_shell Match_tui to_string_def at_prompt_def ansi_len_def)

section \<open>The loop\<close>

definition classify :: "byte list \<Rightarrow> PromptState" where
  "classify raw = (if Match shellPromptRegex raw then PromptShell
     else if Match tuiEscapeRegex raw then PromptTUI else PromptUnknown)"

lemma probe_loop_classifies:
  "\<not> Match shellPromptRegex raw \<Longrightarrow> \<not> Match tuiEscapeRegex raw \<Longrightarrow>
    probe_loop sid deadline script raw = Some (Inr r) \<Longrightarrow>
    PR_SessionID r = sid \<and> PR_PromptState r = classify (PR_RawResponse r)"
proof (induction sid deadline script raw rule: probe_loop.induct)
  case (2 sid deadline now rd script raw)
  show ?case
  proof (cases "now < deadline")
    case False
    then show ?thesis using 2 by (auto simp: classify_def)
  next
    case True
    show ?thesis
    proof (cases rd)
      case (ReadBytes b)
      then show ?thesis
        using 2(1) [OF refl _ ReadBytes refl] 2(4) True by (auto simp: classify_def Let_def split: if_splits)
    qed (use 2 True in \<open>auto simp: classify_def\<close>)
  qed
qed simp

definition ends_round :: "time \<Rightarrow> time \<times> read_result \<Rightarrow> bool" where
  \<comment> \<open>the deadline has passed, or the read fails\<close>
  "ends_round deadline e \<longleftrightarrow> deadline \<le> fst e \<or> (\<nexists>b. snd e = ReadBytes b)"

lemma probe_loop_ends:
  "\<exists>e\<in>set script. ends_round deadline e \<Longrightarrow> probe_loop sid deadline script raw \<noteq> None"
proof (induction sid deadline script raw rule: probe_loop.induct)
  case (2 sid deadline now rd script raw)
  show ?case
  proof (cases "now < deadline \<and> (\<exists>b. rd = ReadBytes b)")
    case True
    then obtain b where b: "now < deadline" "rd = ReadBytes b" by blast
    then have "\<exists>e\<in>set script. ends_round deadline e" using 2(2) by (auto simp: ends_round_def)
    then show ?thesis using 2(1) [OF refl _ b(2) refl] b by (auto simp: Let_def)
  next
    case False
    then show ?thesis by (cases rd) (auto simp: Let_def)
  qed
qed simp

lemma increasing_clock:
  "sorted_wrt (<) (t0 # ts) \<Longrightarrow> t0 + int (length ts) \<le> last (t0 # ts)" for ts :: "int list"
proof (induction ts arbitrary: t0)
  case (Cons t ts)
  have "t + int (length ts) \<le> last (t # ts)" using Cons by simp
  then show ?case using Cons.prems by auto
qed simp

section \<open>Properties\<close>


definition probe_manager :: Manager where
  "probe_manager = Manager_Register ((NewSession 0 7 ''u'' ''h'')\<lparr>S_ShellStream := Some 1\<rparr>) NewManager"

lemma probe_manager_Get: "Manager_Get probe_manager 7 = Some ((NewSession 0 7 ''u'' ''h'')\<lparr>S_ShellStream := Some 1\<rparr>)"
  by (simp add: probe_manager_def Manager_Get_def Manager_Register_def NewManager_def NewSession_def)


text \<open>C18: a probe returns. On a session with a stream, it returns as soon as one read fails or times out,
  or one clock reading is past the deadline; with a clock that advances from round to round it returns
  after at most as many rounds as the two seconds of the timeout have nanoseconds.\<close>

theorem probe_terminates:
  assumes "Manager_Get mgr sid = Some s" "S_ShellStream s \<noteq> None"
    and "(\<exists>e\<in>set script. ends_round (now + ProbeTimeout) e) \<or>
      sorted_wrt (<) (now # map fst script) \<and> nat ProbeTimeout \<le> length script"
  shows "\<exists>res. ProbeSession mgr sid werr now script = Inr (Some res)"
proof -
  have "\<exists>e\<in>set script. ends_round (now + ProbeTimeout) e"
    using assms(3)
  proof
    assume clock: "sorted_wrt (<) (now # map fst script) \<and> nat ProbeTimeout \<le> length script"
    then have "now + int (length script) \<le> last (now # map fst script)"
      using increasing_clock [of now "map fst script"] by simp
    moreover have "script \<noteq> []" using clock by (auto simp: ProbeTimeout_def Second_def)
    ultimately show ?thesis
      using clock by (intro bexI [of _ "last script"])
        (auto simp: ends_round_def last_map ProbeTimeout_def Second_def)
  qed
  then have "probe_loop sid (now + ProbeTimeout) script [] \<noteq> None" by (rule probe_loop_ends)
  then show ?thesis using assms(1,2) by (auto simp: ProbeSession_def split: option.split)
qed

theorem probe_terminates_witness:
  "\<exists>res. ProbeSession probe_manager 7 None 0 [(1, ReadBytes [120]), (3 * 10 ^ 9, ReadBytes [121])] = Inr (Some res)"
  by (rule probe_terminates [OF probe_manager_Get]) (simp_all add: ends_round_def ProbeTimeout_def Second_def)

end
