(* ===== verification/AuditLog.thy ===== *)
theory AuditLog
  imports RegexpScan Risk GoRuntime
begin

text \<open>
  \<open>internal/audit\<close>: the filter for sensitive data (\<open>sensitive.go\<close>) and the audit service
  (\<open>service.go\<close>), which writes one JSON file per command. The file system is a map from names to JSON
  trees, its errors and the clock readings are arguments; the Zstandard encoder is third-party code and
  a parameter.
\<close>

section \<open>The filter\<close>

definition quotes_class :: string where
  \<comment> \<open>a single and a double quote\<close>
  "quotes_class = [CHR 0x27, CHR 0x22]"

definition value_pattern :: string where
  \<comment> \<open>the common tail of the first two patterns\<close>
  "value_pattern = [CHR 0x5C] @ ''s*[:=]'' @ [CHR 0x5C] @ ''s*['' @ quotes_class @ '']?([^'' @ quotes_class @
     [CHR 0x5C] @ ''s]+)''"

definition password_pattern :: string where
  "password_pattern = ''(?i)(password|passwd|pwd)'' @ value_pattern"

definition secret_pattern :: string where
  "secret_pattern = ''(?i)(secret|api_key|apikey|token)'' @ value_pattern"

definition credential_pattern :: string where
  "credential_pattern = ''mysql'' @ [CHR 0x5C] @ ''s+-u'' @ [CHR 0x5C] @ ''s+('' @ [CHR 0x5C] @ ''S+)'' @
     [CHR 0x5C] @ ''s+-p'' @ [CHR 0x5C] @ ''s+('' @ [CHR 0x5C] @ ''S+)''"

definition mask :: string where "mask = ''***MASKED***''"

definition the_regex :: "string \<Rightarrow> re" where
  \<comment> \<open>an initialised package variable; the three patterns compile\<close>
  "the_regex pattern = (case MustCompile pattern of Inr r \<Rightarrow> r | Inl p \<Rightarrow> ReEmpty)"

definition passwordRegex :: re where "passwordRegex = the_regex password_pattern"
definition secretRegex :: re where "secretRegex = the_regex secret_pattern"
definition credentialRegex :: re where "credentialRegex = the_regex credential_pattern"

definition Filter :: "string \<Rightarrow> string" where
  "Filter input =
     (let result = ReplaceAllString passwordRegex input (''${1}: '' @ mask);
          result = ReplaceAllString secretRegex result (''${1}: '' @ mask)
      in ReplaceAllString credentialRegex result (''mysql -u ${1} -p '' @ mask))"

definition IsSensitive :: "string \<Rightarrow> bool" where
  "IsSensitive input \<longleftrightarrow>
     MatchString passwordRegex input \<or> MatchString secretRegex input \<or> MatchString credentialRegex input"

section \<open>The calendar\<close>

definition civil :: "nat \<Rightarrow> nat \<times> nat \<times> nat" where
  \<comment> \<open>year, month and day of a number of days after the first of January 1970\<close>
  "civil days =
     (let z = days + 719468; era = z div 146097; doe = z mod 146097;
          yoe = (doe - doe div 1460 + doe div 36524 - doe div 146096) div 365;
          doy = doe - (365 * yoe + yoe div 4 - yoe div 100);
          mp = (5 * doy + 2) div 153;
          d = doy - (153 * mp + 2) div 5 + 1;
          m = (if mp < 10 then mp + 3 else mp - 9)
      in (yoe + 400 * era + (if m \<le> 2 then 1 else 0), m, d))"

definition pad :: "nat \<Rightarrow> nat \<Rightarrow> string" where
  \<comment> \<open>a number in at least so many digits\<close>
  "pad w n = replicate (w - length (fmt_d n)) (CHR ''0'') @ fmt_d n"

definition seconds_of :: "time \<Rightarrow> nat" where
  \<comment> \<open>whole seconds after 1970\<close>
  "seconds_of t = nat (t div Second)"

definition format_rfc3339 :: "nat \<Rightarrow> string" where
  \<comment> \<open>\<open>Format(time.RFC3339)\<close> of a time in UTC\<close>
  "format_rfc3339 s =
     (let (y, m, d) = civil (s div 86400); r = s mod 86400
      in pad 4 y @ ''-'' @ pad 2 m @ ''-'' @ pad 2 d @ ''T'' @
         pad 2 (r div 3600) @ '':'' @ pad 2 (r mod 3600 div 60) @ '':'' @ pad 2 (r mod 60) @ ''Z'')"

definition format_compact :: "nat \<Rightarrow> string" where
  \<comment> \<open>\<open>Format("20060102_150405")\<close>\<close>
  "format_compact s =
     (let (y, m, d) = civil (s div 86400); r = s mod 86400
      in pad 4 y @ pad 2 m @ pad 2 d @ ''_'' @
         pad 2 (r div 3600) @ pad 2 (r mod 3600 div 60) @ pad 2 (r mod 60))"

section \<open>The service\<close>

record CommandLog =
  L_Timestamp :: string
  L_UserID :: string
  L_SessionID :: u32
  L_HostID :: string
  L_CommandType :: string
  L_RawInput :: string
  L_CleanInput :: string
  L_RiskLevel :: string

record StreamLog =
  \<comment> \<open>not used by any operation\<close>
  T_Timestamp :: string
  T_SessionID :: u32
  T_Data :: "byte list"

text \<open>The filter of a service has no state, so it is not a field.\<close>

record 'enc Service =
  S_encoder :: 'enc
  S_logDir :: string
  S_bufferSize :: int

datatype audit_error =
    ErrCreateDir string
  | ErrCreateEncoder string
  | ErrWriteLog string

definition NewService :: "string option \<Rightarrow> string + 'enc \<Rightarrow> string \<Rightarrow> audit_error + 'enc Service" where
  \<comment> \<open>the error of \<open>os.MkdirAll\<close> and the answer of \<open>zstd.NewWriter\<close>\<close>
  "NewService mkdir writer logDir =
     (case mkdir of
        Some err \<Rightarrow> Inl (ErrCreateDir err)
      | None \<Rightarrow>
          (case writer of
             Inl err \<Rightarrow> Inl (ErrCreateEncoder err)
           | Inr enc \<Rightarrow> Inr \<lparr>S_encoder = enc, S_logDir = logDir, S_bufferSize = 1024 * 1024\<rparr>))"

definition json_of_log :: "CommandLog \<Rightarrow> json" where
  \<comment> \<open>\<open>json.Marshal(log)\<close>, which cannot fail on strings and a number\<close>
  "json_of_log l = JObject
     [(''timestamp'', JString (L_Timestamp l)), (''userId'', JString (L_UserID l)),
      (''sessionId'', JNumber (fmt_d (unat (L_SessionID l)))), (''hostId'', JString (L_HostID l)),
      (''commandType'', JString (L_CommandType l)), (''rawInput'', JString (L_RawInput l)),
      (''cleanInput'', JString (L_CleanInput l)), (''riskLevel'', JString (L_RiskLevel l))]"

text \<open>One call reads the clock twice. A failing \<open>os.WriteFile\<close> may have created or truncated the file.\<close>

record audit_env =
  AE_stamp :: time \<comment> \<open>the reading for the time stamp\<close>
  AE_name :: time \<comment> \<open>the reading for the file name\<close>
  AE_zone :: duration \<comment> \<open>what the local zone adds to UTC then\<close>
  AE_write :: "(string \<times> json option) option" \<comment> \<open>the error of the write, and what it left\<close>

type_synonym files = "string \<Rightarrow> json option"

definition log_filename :: "'enc Service \<Rightarrow> audit_env \<Rightarrow> u32 \<Rightarrow> string" where
  "log_filename s env sessionID =
     S_logDir s @ ''/command_'' @ format_compact (seconds_of (AE_name env + AE_zone env)) @ ''_'' @
     fmt_d (unat sessionID) @ ''.json''"

definition LogCommand ::
  "'enc Service \<Rightarrow> audit_env \<Rightarrow> string \<Rightarrow> u32 \<Rightarrow> string \<Rightarrow> string \<Rightarrow> string \<Rightarrow> files \<Rightarrow>
    (CommandLog \<times> audit_error option) \<times> files" where
  "LogCommand s env userID sessionID hostID rawInput riskLevel fs =
     (let cleanInput = Filter rawInput;
          log = \<lparr>L_Timestamp = format_rfc3339 (seconds_of (AE_stamp env)), L_UserID = userID,
            L_SessionID = sessionID, L_HostID = hostID, L_CommandType = ''shell_input'',
            L_RawInput = rawInput, L_CleanInput = cleanInput, L_RiskLevel = riskLevel\<rparr>;
          filename = log_filename s env sessionID
      in case AE_write env of
           Some (err, left) \<Rightarrow> ((log, Some (ErrWriteLog err)), fs(filename := left))
         | None \<Rightarrow> ((log, None), fs(filename := Some (json_of_log log))))"

definition CompressData :: "('enc \<Rightarrow> byte list \<Rightarrow> byte list) \<Rightarrow> 'enc Service \<Rightarrow> byte list \<Rightarrow> byte list" where
  \<comment> \<open>the argument is the encoder's \<open>EncodeAll\<close>; the error is always nil\<close>
  "CompressData encodeAll s dat = encodeAll (S_encoder s) dat"

definition Service_Close :: "('enc \<Rightarrow> 'enc) \<Rightarrow> 'enc Service \<Rightarrow> 'enc Service" where
  \<comment> \<open>the argument is the encoder's \<open>Close\<close>, whose error is dropped\<close>
  "Service_Close close_encoder s = s\<lparr>S_encoder := close_encoder (S_encoder s)\<rparr>"

section \<open>The password pattern\<close>

text \<open>The pattern is a key followed by the common tail; on \<open>password=\<close> and a value of runes the tail's class
  admits, its first match is the whole text.\<close>

definition space_ranges :: "(rune \<times> rune) list" where "space_ranges = [(9, 10), (12, 13), (32, 32)]"
definition quote_ranges :: "(rune \<times> rune) list" where "quote_ranges = [(39, 39), (34, 34)]"

definition value_rune :: "rune \<Rightarrow> bool" where
  "value_rune = class_matches True True (quote_ranges @ space_ranges)"

definition password_key :: re where
  "password_key = (case Compile ''(?i)(password|passwd|pwd)'' of Inr r \<Rightarrow> r | Inl _ \<Rightarrow> ReEmpty)"

definition tail_re :: "re \<Rightarrow> re" where
  "tail_re key = ReCat (ReCat (ReCat (ReCat (ReCat key (ReStar True (ReClass True False space_ranges)))
     (ReClass True False [(58, 58), (61, 61)])) (ReStar True (ReClass True False space_ranges)))
     (ReQuest True (ReClass True False quote_ranges)))
     (ReCap 2 (ReCat (ReClass True True (quote_ranges @ space_ranges))
       (ReStar True (ReClass True True (quote_ranges @ space_ranges)))))"

lemma passwordRegex_eq: "passwordRegex = tail_re password_key"
  by code_simp

fun ci_literal :: "re \<Rightarrow> rune list \<Rightarrow> re" where
  "ci_literal r [] = r" | "ci_literal r (c # cs) = ci_literal (ReCat r (ReLit True c)) cs"

lemma password_key_eq: "password_key = ReCap 1 (ReAlt (ci_literal (ReLit True 112) [97,115,115,119,111,114,100])
  (ReAlt (ci_literal (ReLit True 112) [97,115,115,119,100]) (ci_literal (ReLit True 112) [119,100])))"
  by code_simp

lemma password_key_eval:
  "match_re password_key (0, map (\<lambda>c. (rn c, [c])) ''password'' @ s, []) = [(8, s, [(1, 0, 8)])]"
  unfolding password_key_eq by (simp add: lit_matches_def canon_def)

lemma value_rune_iff: "value_rune r \<longleftrightarrow> r \<notin> {9, 10, 12, 13, 32, 34, 39}"
  unfolding value_rune_def class_matches_def quote_ranges_def space_ranges_def in_ranges_def orbit_def canon_def
  by (auto simp: Let_def)

lemma class_iffs: "class_matches True False space_ranges r \<longleftrightarrow> r \<in> {9, 10, 12, 13, 32}"
  "class_matches True False quote_ranges r \<longleftrightarrow> r \<in> {34, 39}"
  "class_matches True False [(58, 58), (61, 61)] r \<longleftrightarrow> r \<in> {58, 61}"
  unfolding class_matches_def quote_ranges_def space_ranges_def in_ranges_def orbit_def canon_def
  by (auto simp: Let_def)

lemma tail_eval:
  assumes key: "match_re key (0, kw @ (61, ''='') # s, []) = [(n, (61, ''='') # s, cs)]"
    and s: "s \<noteq> []" "\<forall>g\<in>set s. value_rune (fst g)"
  shows "\<exists>ys. match_re (tail_re key) (0, kw @ (61, ''='') # s, []) =
     (Suc n + length s, [], (2, Suc n, Suc n + length s) # cs) # ys"
proof -
  obtain g t where gt: "s = g # t" using s(1) by (cases s) auto
  have g: "fst g \<notin> {9, 10, 12, 13, 32, 34, 39}" using s(2) gt by (simp add: value_rune_iff)
  have sp: "span (class_matches True True (quote_ranges @ space_ranges)) t = length t"
    using s(2) gt by (simp add: span_all value_rune_def)
  show ?thesis
    unfolding tail_re_def match_re.simps(6) key
    using g value_rune_iff [of "fst g"] sp
    by (simp add: match_star_class class_iffs gt value_rune_def [symmetric] del: match_re.simps(8))
qed

lemma tail_none: "match_re key (i, [], []) = [] \<Longrightarrow> match_re (tail_re key) (i, [], []) = []"
  by (simp add: tail_re_def)

lemma glyph_runes:
  "\<forall>c\<in>set v. of_char c \<notin> A \<Longrightarrow> A \<subseteq> {..<128} \<Longrightarrow> \<forall>g\<in>set (glyphs v). fst g \<notin> A"
proof (induction v rule: glyphs.induct)
  case (2 c s)
  obtain r n where dec: "decode_rune c s = (r, n)" by fastforce
  have "r \<notin> A"
  proof (cases "rn c < 128")
    case True
    then have "r = rn c" using dec by (simp add: decode_rune_def split: prod.splits)
    then show ?thesis using 2(2) by simp
  next
    case False
    then have "128 \<le> r" using decode_rune_multibyte [of c s] dec by simp
    then show ?thesis using 2(3) by auto
  qed
  moreover have "\<forall>g\<in>set (glyphs (drop (n - 1) s)). fst g \<notin> A"
    by (rule 2(1) [OF dec [symmetric] refl]) (use 2(2,3) in \<open>auto dest: in_set_dropD\<close>)
  ultimately show ?case by (simp add: glyphs.simps(2) dec)
qed simp

definition plain_value :: "string \<Rightarrow> bool" where
  \<comment> \<open>not empty, no white space and no quotes\<close>
  "plain_value v \<longleftrightarrow> v \<noteq> [] \<and> (\<forall>c\<in>set v. of_char c \<notin> ({9, 10, 12, 13, 32, 34, 39} :: nat set))"

lemma plain_value_runes:
  assumes "plain_value v"
  shows "\<forall>g\<in>set (glyphs v). value_rune (fst g)"
  using glyph_runes [of v "{9, 10, 12, 13, 32, 34, 39}"] assms
  by (simp add: plain_value_def value_rune_iff)

lemma password_masked:
  assumes v: "plain_value v"
  shows "Filter (''password='' @ v) = ''password: ***MASKED***''"
proof -
  let ?kw = "map (\<lambda>c. (rn c, [c])) ''password''" and ?s = "''password='' @ v"
  have gs: "glyphs ?s = ?kw @ (61, ''='') # glyphs v" by simp
  have "v \<noteq> []" using v by (simp add: plain_value_def)
  then have ne: "glyphs v \<noteq> []" using bytes_of_glyphs [of v] by (cases "glyphs v") auto
  obtain ys where "match_re passwordRegex (0, glyphs ?s, []) =
      (length (glyphs ?s), [], [(2, 9, 9 + length (glyphs v)), (1, 0, 8)]) # ys"
    using tail_eval [OF password_key_eval ne plain_value_runes [OF v]] unfolding gs passwordRegex_eq by auto
  moreover have "match_re passwordRegex (length (glyphs ?s), [], []) = []"
    unfolding passwordRegex_eq by (rule tail_none) (simp add: password_key_eq)
  moreover have "glyphs ?s \<noteq> []" by simp
  ultimately have "ReplaceAllString passwordRegex ?s (''${1}: '' @ mask) =
      expand (glyphs ?s) 0 (length (glyphs ?s), [], [(2, 9, 9 + length (glyphs v)), (1, 0, 8)])
        (parse_template (''${1}: '' @ mask))"
    by (rule replace_whole)
  moreover have "parse_template (''${1}: '' @ mask) = PGroup 1 # map (\<lambda>c. PText [c]) (tl ''x: ***MASKED***'')"
    by code_simp
  ultimately have "ReplaceAllString passwordRegex ?s (''${1}: '' @ mask) = ''password: ***MASKED***''"
    unfolding expand_def group_text_def gs by simp
  moreover have "ReplaceAllString credentialRegex (ReplaceAllString secretRegex ''password: ***MASKED***'' (''${1}: '' @ mask))
     (''mysql -u ${1} -p '' @ mask) = ''password: ***MASKED***''" by code_simp
  ultimately show ?thesis by (simp add: Filter_def)
qed

lemma filter_insensitive: "\<not> IsSensitive x \<Longrightarrow> Filter x = x"
  by (simp add: IsSensitive_def Filter_def replace_no_match)

section \<open>File names and records\<close>

lemma log_filename_eq:
  "log_filename s env1 sid1 = log_filename s env2 sid2 \<longleftrightarrow> sid1 = sid2 \<and>
     format_compact (seconds_of (AE_name env1 + AE_zone env1)) =
     format_compact (seconds_of (AE_name env2 + AE_zone env2))"
    (is "?names \<longleftrightarrow> _ \<and> ?a = ?b")
proof
  assume ?names
  then have "?a @ CHR ''_'' # fmt_d (unat sid1) = ?b @ CHR ''_'' # fmt_d (unat sid2)"
    by (simp add: log_filename_def)
  moreover have "CHR ''_'' \<notin> set (fmt_d n)" for n using fmt_d_digits [of "CHR ''_''" n] by auto
  ultimately have "?a = ?b \<and> fmt_d (unat sid1) = fmt_d (unat sid2)" by (intro split_at_last)
  then show "sid1 = sid2 \<and> ?a = ?b" by (simp add: word_unat_eq_iff)
qed (simp add: log_filename_def)

lemma json_of_log_inj: "json_of_log l = json_of_log l' \<longleftrightarrow> l = l'"
  by (cases l; cases l') (auto simp: json_of_log_def simp flip: word_unat_eq_iff)

section \<open>Properties\<close>



text \<open>What a command log holds. The record returned and the one written carry the command as typed, with
  its secrets, next to the filtered one; a call writes the file named after the second, in local time, and the
  session, and no other; a failing write is reported together with the record.\<close>

theorem log_command_contract:
  "case LogCommand s env user sid host raw level fs of ((log, err), fs') \<Rightarrow>
     L_RawInput log = raw \<and> L_CleanInput log = Filter raw \<and> L_SessionID log = sid \<and>
     (\<forall>f. f = log_filename s env sid \<or> fs' f = fs f) \<and>
     (case AE_write env of
        None \<Rightarrow> err = None \<and> fs' (log_filename s env sid) = Some (json_of_log log) \<and>
          (\<exists>members. json_of_log log = JObject members \<and> map_of members ''rawInput'' = Some (JString raw))
      | Some (e, left) \<Rightarrow> err = Some (ErrWriteLog e) \<and> fs' (log_filename s env sid) = left)"
  by (simp add: LogCommand_def Let_def json_of_log_def split: option.split)

text \<open>C15: one session's commands overwrite each other. After two logged commands the first record is still in
  its file exactly when the sessions or the seconds of the file names differ (or the records are equal): commands
  of one session within a second leave one file.\<close>

theorem log_command_overwrites:
  assumes "AE_write env1 = None" "AE_write env2 = None"
    and first: "LogCommand s env1 user1 sid1 host1 raw1 level1 fs = ((log1, e1), fs1)"
    and second: "LogCommand s env2 user2 sid2 host2 raw2 level2 fs1 = ((log2, e2), fs2)"
  shows "fs2 (log_filename s env1 sid1) = Some (json_of_log log1) \<longleftrightarrow>
    sid1 \<noteq> sid2 \<or> log1 = log2 \<or>
    format_compact (seconds_of (AE_name env1 + AE_zone env1)) \<noteq>
    format_compact (seconds_of (AE_name env2 + AE_zone env2))"
proof -
  have "fs1 = fs(log_filename s env1 sid1 := Some (json_of_log log1))"
    "fs2 = fs1(log_filename s env2 sid2 := Some (json_of_log log2))"
    using first second assms(1,2) by (auto simp: LogCommand_def Let_def)
  then show ?thesis
    using log_filename_eq [of s env1 sid1 env2 sid2]
    by (cases "log_filename s env1 sid1 = log_filename s env2 sid2") (auto simp: json_of_log_inj)
qed

definition demo_env :: "time \<Rightarrow> audit_env" where
  "demo_env t = \<lparr>AE_stamp = t, AE_name = t, AE_zone = 0, AE_write = None\<rparr>"

theorem log_command_overwrites_witness:
  "\<exists>(s :: unit Service) fs1 fs2 log1 log2.
     LogCommand s (demo_env (5 * Second)) [] 1 [] ''ls'' ''low'' (\<lambda>_. None) = ((log1, None), fs1) \<and>
     LogCommand s (demo_env (5 * Second + 1)) [] 1 [] ''id'' ''low'' fs1 = ((log2, None), fs2) \<and>
     fs2 (log_filename s (demo_env (5 * Second)) 1) \<noteq> Some (json_of_log log1)"
proof -
  let ?s = "\<lparr>S_encoder = (), S_logDir = ''/var/log'', S_bufferSize = 0\<rparr>"
  let ?e1 = "demo_env (5 * Second)" and ?e2 = "demo_env (5 * Second + 1)"
  have ok: "AE_write ?e1 = None" "AE_write ?e2 = None" by (simp_all add: demo_env_def)
  obtain log1 e1 fs1 where first: "LogCommand ?s ?e1 [] 1 [] ''ls'' ''low'' (\<lambda>_. None) = ((log1, e1), fs1)"
    by (metis prod.exhaust)
  obtain log2 e2 fs2 where second: "LogCommand ?s ?e2 [] 1 [] ''id'' ''low'' fs1 = ((log2, e2), fs2)"
    by (metis prod.exhaust)
  have "seconds_of (AE_name ?e1 + AE_zone ?e1) = seconds_of (AE_name ?e2 + AE_zone ?e2)"
    by (simp add: demo_env_def seconds_of_def Second_def)
  moreover have "log1 \<noteq> log2" "e1 = None" "e2 = None"
    using first second by (auto simp: LogCommand_def demo_env_def Let_def)
  ultimately have "fs2 (log_filename ?s ?e1 1) \<noteq> Some (json_of_log log1)"
    using log_command_overwrites [OF ok first second] by simp
  then show ?thesis using first second \<open>e1 = None\<close> \<open>e2 = None\<close> by blast
qed

end
