(* ===== verification/Ssh.thy ===== *)
theory Ssh
  imports GoRuntime
begin

text \<open>
  \<open>internal/ssh\<close>: the client (\<open>client.go\<close>) and the registry of clients by host (\<open>manager.go\<close>). The package
  \<open>golang.org/x/crypto/ssh\<close> is third-party code: its answers (an error, or a handle) are arguments, and the
  calls made on a session are recorded in order. A \<open>*Client\<close> is a pointer into a heap, so that the manager
  and its callers share it.
\<close>

section \<open>The client\<close>

type_synonym conn = nat \<comment> \<open>a handle of an \<open>*ssh.Client\<close>\<close>
type_synonym session = nat \<comment> \<open>a handle of an \<open>*ssh.Session\<close>\<close>

datatype host_key_policy = InsecureIgnoreHostKey \<comment> \<open>accepts every host key\<close>

record 'auth ClientConfig =
  CC_User :: string
  CC_Auth :: "'auth list"
  CC_HostKeyCallback :: host_key_policy
  CC_Timeout :: duration

definition NewClientConfig :: "string \<Rightarrow> 'auth list \<Rightarrow> 'auth ClientConfig" where
  "NewClientConfig user authMethods =
     \<lparr>CC_User = user, CC_Auth = authMethods, CC_HostKeyCallback = InsecureIgnoreHostKey,
      CC_Timeout = 30 * Second\<rparr>"

record 'auth Client =
  C_Config :: "'auth ClientConfig"
  C_Client :: "conn option"

datatype ssh_error =
    ErrDial string
  | ErrNotConnected
  | ErrSsh string \<comment> \<open>an error of the package, passed on\<close>
  | ErrClientNotFound

definition Connect :: "string + conn \<Rightarrow> 'auth Client \<Rightarrow> ssh_error option \<times> 'auth Client" where
  \<comment> \<open>the first argument is the answer of \<open>ssh.Dial\<close>\<close>
  "Connect dial c =
     (case dial of
        Inl err \<Rightarrow> (Some (ErrDial err), c)
      | Inr client \<Rightarrow> (None, c\<lparr>C_Client := Some client\<rparr>))"

definition NewSession :: "(conn \<Rightarrow> string + session) \<Rightarrow> 'auth Client \<Rightarrow> ssh_error + session" where
  "NewSession new_session c =
     (case C_Client c of
        None \<Rightarrow> Inl ErrNotConnected
      | Some client \<Rightarrow> (case new_session client of Inl err \<Rightarrow> Inl (ErrSsh err) | Inr s \<Rightarrow> Inr s))"

section \<open>The pseudo-terminal\<close>

datatype terminal_mode = ECHO | TTY_OP_ISPEED | TTY_OP_OSPEED

datatype session_call =
    RequestPty string int int "(terminal_mode \<times> nat) list" \<comment> \<open>term, height, width, modes\<close>
  | StdinPipe
  | StdoutPipe
  | StderrPipe
  | Shell
  | SessionClose

record pty_env =
  PE_session :: "conn \<Rightarrow> string + session"
  PE_pty :: "string option"
  PE_stdin :: "string option"
  PE_stdout :: "string option"
  PE_stderr :: "string option"
  PE_shell :: "string option"

definition terminal_modes :: "(terminal_mode \<times> nat) list" where
  "terminal_modes = [(ECHO, 1), (TTY_OP_ISPEED, 14400), (TTY_OP_OSPEED, 14400)]"

type_synonym ptySession = session \<comment> \<open>the pipes belong to the session\<close>

definition OpenPTY ::
  "pty_env \<Rightarrow> int \<Rightarrow> int \<Rightarrow> 'auth Client \<Rightarrow> (ssh_error + ptySession) \<times> session_call list" where
  "OpenPTY env cols rows c =
     (case NewSession (PE_session env) c of
        Inl err \<Rightarrow> (Inl err, [])
      | Inr s \<Rightarrow>
          (let calls = [RequestPty ''xterm-256color'' cols rows terminal_modes]
           in case PE_pty env of Some err \<Rightarrow> (Inl (ErrSsh err), calls @ [SessionClose]) | None \<Rightarrow>
          (let calls = calls @ [StdinPipe]
           in case PE_stdin env of Some err \<Rightarrow> (Inl (ErrSsh err), calls @ [SessionClose]) | None \<Rightarrow>
          (let calls = calls @ [StdoutPipe]
           in case PE_stdout env of Some err \<Rightarrow> (Inl (ErrSsh err), calls @ [SessionClose]) | None \<Rightarrow>
          (let calls = calls @ [StderrPipe]
           in case PE_stderr env of Some err \<Rightarrow> (Inl (ErrSsh err), calls @ [SessionClose]) | None \<Rightarrow>
          (let calls = calls @ [Shell]
           in case PE_shell env of Some err \<Rightarrow> (Inl (ErrSsh err), calls @ [SessionClose]) | None \<Rightarrow>
             (Inr s, calls)))))))"

text \<open>The methods of \<open>ptySession\<close> pass to the pipes and the session; the parameters are their operations.\<close>

definition pty_Read :: "(session \<Rightarrow> nat \<Rightarrow> 'r) \<Rightarrow> ptySession \<Rightarrow> nat \<Rightarrow> 'r" where
  "pty_Read stdout_read p n = stdout_read p n"

definition pty_Write :: "(session \<Rightarrow> byte list \<Rightarrow> 'r) \<Rightarrow> ptySession \<Rightarrow> byte list \<Rightarrow> 'r" where
  "pty_Write stdin_write p b = stdin_write p b"

datatype close_call = CloseStdin session | CloseSession session

definition pty_Close :: "string option \<Rightarrow> string option \<Rightarrow> ptySession \<Rightarrow> string option \<times> close_call list" where
  \<comment> \<open>the error of closing stdin is dropped\<close>
  "pty_Close stdin_err session_err p = (session_err, [CloseStdin p, CloseSession p])"

definition SetReadDeadline :: "time \<Rightarrow> ptySession \<Rightarrow> string option \<times> ptySession" where
  "SetReadDeadline t p = (None, p)"

definition SetWriteDeadline :: "time \<Rightarrow> ptySession \<Rightarrow> string option \<times> ptySession" where
  "SetWriteDeadline t p = (None, p)"

section \<open>The manager\<close>

text \<open>The world holds the heap of clients, the manager's map from hosts to clients, and what
  the package has done: the handles given out by \<open>Dial\<close> so far are the numbers below \<open>W_next\<close>.\<close>

type_synonym client_ptr = nat

record 'auth ssh_world =
  W_heap :: "'auth Client list"
  W_clients :: "(string, client_ptr) sync_map"
  W_next :: conn
  W_closed :: "conn list"

definition NewManager :: "'auth ssh_world" where
  \<comment> \<open>no goroutine is started\<close>
  "NewManager = \<lparr>W_heap = [], W_clients = [], W_next = 0, W_closed = []\<rparr>"

definition keepalive_tick :: "'auth ssh_world \<Rightarrow> conn list" where
  \<comment> \<open>one tick of \<open>keepaliveLoop\<close>: the connections a request is sent to\<close>
  "keepalive_tick w =
     sm_range (\<lambda>key p sent. (True, case C_Client (W_heap w ! p) of None \<Rightarrow> sent | Some c \<Rightarrow> sent @ [c]))
       (W_clients w) []"

fun keepaliveLoop :: "'auth ssh_world list \<Rightarrow> conn list" where
  \<comment> \<open>the loop over the worlds it finds at its ticks; nothing starts it\<close>
  "keepaliveLoop [] = []"
| "keepaliveLoop (w # ws) = keepalive_tick w @ keepaliveLoop ws"

definition goc_load :: "string \<Rightarrow> 'auth ssh_world \<Rightarrow> client_ptr option" where
  "goc_load host w = sm_load (W_clients w) host"

definition goc_dial ::
  "string option \<Rightarrow> 'auth ClientConfig \<Rightarrow> 'auth ssh_world \<Rightarrow> (ssh_error + client_ptr) \<times> 'auth ssh_world" where
  \<comment> \<open>allocate the client and connect it; the first argument is the error of \<open>ssh.Dial\<close>\<close>
  "goc_dial dial_err config w =
     (let client = \<lparr>C_Config = config, C_Client = None\<rparr>;
          dial = (case dial_err of Some err \<Rightarrow> Inl err | None \<Rightarrow> Inr (W_next w));
          w = (case dial_err of Some err \<Rightarrow> w | None \<Rightarrow> w\<lparr>W_next := Suc (W_next w)\<rparr>)
      in case Connect dial client of
           (Some err, client) \<Rightarrow> (Inl err, w)
         | (None, client) \<Rightarrow> (Inr (length (W_heap w)), w\<lparr>W_heap := W_heap w @ [client]\<rparr>))"

definition goc_store :: "string \<Rightarrow> client_ptr \<Rightarrow> 'auth ssh_world \<Rightarrow> 'auth ssh_world" where
  "goc_store host p w = w\<lparr>W_clients := sm_store host p (W_clients w)\<rparr>"

definition GetOrCreate ::
  "string option \<Rightarrow> string \<Rightarrow> 'auth ClientConfig \<Rightarrow> 'auth ssh_world \<Rightarrow>
    (ssh_error + client_ptr) \<times> 'auth ssh_world" where
  "GetOrCreate dial_err host config w =
     (case goc_load host w of
        Some p \<Rightarrow> (Inr p, w)
      | None \<Rightarrow>
          (case goc_dial dial_err config w of
             (Inl err, w) \<Rightarrow> (Inl err, w)
           | (Inr p, w) \<Rightarrow> (Inr p, goc_store host p w)))"

definition Manager_Close :: "string \<Rightarrow> 'auth ssh_world \<Rightarrow> ssh_error option \<times> 'auth ssh_world" where
  \<comment> \<open>the error of closing the connection is dropped\<close>
  "Manager_Close host w =
     (case sm_load (W_clients w) host of
        None \<Rightarrow> (Some ErrClientNotFound, w)
      | Some p \<Rightarrow>
          (let w = (case C_Client (W_heap w ! p) of None \<Rightarrow> w | Some c \<Rightarrow> w\<lparr>W_closed := c # W_closed w\<rparr>)
           in (None, w\<lparr>W_clients := sm_delete host (W_clients w)\<rparr>)))"

section \<open>Interleaved calls\<close>

text \<open>\<open>GetOrCreate\<close> is atomic only piece by piece: the load, the dial and the store.\<close>

datatype goc_pc = AtLoad | AtDial | AtStore client_ptr | Returned "ssh_error + client_ptr"

record 'auth goc_state =
  G_world :: "'auth ssh_world"
  G_pcs :: "nat \<Rightarrow> goc_pc"

inductive goc_step :: "string \<Rightarrow> 'auth ClientConfig \<Rightarrow> 'auth goc_state \<Rightarrow> 'auth goc_state \<Rightarrow> bool"
  for host config
where
  Load_hit: "G_pcs s t = AtLoad \<Longrightarrow> goc_load host (G_world s) = Some p \<Longrightarrow>
     goc_step host config s (s\<lparr>G_pcs := (G_pcs s)(t := Returned (Inr p))\<rparr>)"
| Load_miss: "G_pcs s t = AtLoad \<Longrightarrow> goc_load host (G_world s) = None \<Longrightarrow>
     goc_step host config s (s\<lparr>G_pcs := (G_pcs s)(t := AtDial)\<rparr>)"
| Dial_fails: "G_pcs s t = AtDial \<Longrightarrow> goc_dial (Some e) config (G_world s) = (Inl err, w) \<Longrightarrow>
     goc_step host config s \<lparr>G_world = w, G_pcs = (G_pcs s)(t := Returned (Inl err))\<rparr>"
| Dial_ok: "G_pcs s t = AtDial \<Longrightarrow> goc_dial None config (G_world s) = (Inr p, w) \<Longrightarrow>
     goc_step host config s \<lparr>G_world = w, G_pcs = (G_pcs s)(t := AtStore p)\<rparr>"
| Store: "G_pcs s t = AtStore p \<Longrightarrow>
     goc_step host config s
       \<lparr>G_world = goc_store host p (G_world s), G_pcs = (G_pcs s)(t := Returned (Inr p))\<rparr>"

section \<open>Operations in sequence\<close>

datatype 'auth ssh_op = OpGet "string option" string "'auth ClientConfig" | OpClose string

fun ssh_run :: "'auth ssh_op list \<Rightarrow> 'auth ssh_world \<Rightarrow> 'auth ssh_world" where
  "ssh_run [] w = w"
| "ssh_run (OpGet e host config # ops) w = ssh_run ops (snd (GetOrCreate e host config w))"
| "ssh_run (OpClose host # ops) w = ssh_run ops (snd (Manager_Close host w))"

definition open_conns :: "'auth ssh_world \<Rightarrow> conn set" where
  \<comment> \<open>dialled and not closed\<close>
  "open_conns w = {c. c < W_next w \<and> c \<notin> set (W_closed w)}"

definition conn_at :: "'auth ssh_world \<Rightarrow> client_ptr \<Rightarrow> conn option" where
  "conn_at w p = C_Client (W_heap w ! p)"

definition held :: "'auth ssh_world \<Rightarrow> conn option list" where
  \<comment> \<open>the connections of the registered clients\<close>
  "held w = map (\<lambda>e. conn_at w (snd e)) (W_clients w)"

definition ssh_inv :: "'auth ssh_world \<Rightarrow> bool" where
  \<comment> \<open>the registered clients are connected, no two share a connection, and they hold exactly the open ones\<close>
  "ssh_inv w \<longleftrightarrow> sm_wf (W_clients w) \<and> (\<forall>e\<in>set (W_clients w). snd e < length (W_heap w)) \<and>
     distinct (held w) \<and> set (held w) = Some ` open_conns w \<and> set (W_closed w) \<subseteq> {..<W_next w}"

interpretation hosts: registry fst snd "\<lambda>e. goc_store (fst e) (snd e)"
  "\<lambda>host w. w\<lparr>W_clients := sm_delete host (W_clients w)\<rparr>" "\<lambda>w host. goc_load host w"
  by unfold_locales (auto simp: goc_store_def goc_load_def)

lemma GetOrCreate_hit: "goc_load host w = Some p \<Longrightarrow> GetOrCreate e host config w = (Inr p, w)"
  by (simp add: GetOrCreate_def)

lemma GetOrCreate_err: "goc_load host w = None \<Longrightarrow> GetOrCreate (Some e) host config w = (Inl (ErrDial e), w)"
  by (simp add: GetOrCreate_def goc_dial_def Connect_def)

lemma goc_dial_ok: "goc_dial None config w = (Inr (length (W_heap w)),
    w\<lparr>W_next := Suc (W_next w), W_heap := W_heap w @ [\<lparr>C_Config = config, C_Client = Some (W_next w)\<rparr>]\<rparr>)"
  by (simp add: goc_dial_def Connect_def)

lemma GetOrCreate_new:
  "goc_load host w = None \<Longrightarrow> GetOrCreate None host config w = (Inr (length (W_heap w)),
    goc_store host (length (W_heap w)) (snd (goc_dial None config w)))"
  by (simp add: GetOrCreate_def goc_dial_ok)

lemma store_new: "sm_load m k = None \<Longrightarrow> sm_store k v m = m @ [(k, v)]"
  unfolding sm_load_def sm_store_def by (induction m) (auto split: if_splits)

lemma ssh_inv_get:
  assumes inv: "ssh_inv w"
  shows "ssh_inv (snd (GetOrCreate e host config w))"
proof -
  consider p where "goc_load host w = Some p" | err where "goc_load host w = None" "e = Some err"
    | "goc_load host w = None" "e = None"
    by (cases e; cases "goc_load host w") auto
  then show ?thesis
  proof cases
    case 3
    let ?w = "snd (GetOrCreate e host config w)" and ?n = "W_next w"
    have load: "sm_load (W_clients w) host = None" using 3 by (simp add: goc_load_def)
    have clients: "W_clients ?w = W_clients w @ [(host, length (W_heap w))]" "W_closed ?w = W_closed w"
      "W_next ?w = Suc ?n" "W_heap ?w = W_heap w @ [\<lparr>C_Config = config, C_Client = Some ?n\<rparr>]"
      using 3 load by (simp_all add: GetOrCreate_new goc_dial_ok goc_store_def store_new)
    have held: "held ?w = held w @ [Some ?n]"
      using inv by (auto simp: held_def conn_at_def clients nth_append ssh_inv_def intro!: map_cong)
    have opened: "open_conns ?w = insert ?n (open_conns w)" "?n \<notin> open_conns w"
      using inv clients by (auto simp: open_conns_def ssh_inv_def less_Suc_eq)
    have "sm_wf (W_clients ?w)"
      using inv load by (auto simp: clients sm_wf_def ssh_inv_def sm_load_def map_of_eq_None_iff)
    then show ?thesis
      using inv opened by (auto simp: ssh_inv_def held clients less_Suc_eq)
  qed (simp_all add: GetOrCreate_hit GetOrCreate_err inv)
qed

lemma ssh_inv_close:
  assumes inv: "ssh_inv w"
  shows "ssh_inv (snd (Manager_Close host w))"
proof (cases "sm_load (W_clients w) host")
  case (Some p)
  let ?w = "snd (Manager_Close host w)"
  have "(host, p) \<in> set (W_clients w)" using Some inv by (simp add: ssh_inv_def sm_load_entry)
  then obtain xs ys where split: "W_clients w = xs @ (host, p) # ys" by (meson split_list)
  then have "conn_at w p \<in> set (held w)" by (simp add: held_def)
  then obtain c where c: "conn_at w p = Some c" "c \<in> open_conns w" using inv by (auto simp: ssh_inv_def)
  have "host \<notin> fst ` set xs" "host \<notin> fst ` set ys" using inv split by (auto simp: ssh_inv_def sm_wf_def)
  then have "filter (\<lambda>e. fst e \<noteq> host) xs = xs" "filter (\<lambda>e. fst e \<noteq> host) ys = ys"
    by (force simp: filter_id_conv)+
  then have "sm_delete host (W_clients w) = xs @ ys"
    by (simp add: split sm_delete_def AList.delete_eq split_def eq_commute [of host])
  then have w: "?w = w\<lparr>W_closed := c # W_closed w, W_clients := xs @ ys\<rparr>"
    using Some c(1) by (simp add: Manager_Close_def conn_at_def)
  let ?held = "\<lambda>zs. map (\<lambda>e. conn_at w (snd e)) zs"
  have held: "held ?w = ?held xs @ ?held ys" "held w = ?held xs @ Some c # ?held ys"
    using c(1) by (simp_all add: held_def w split conn_at_def)
  have opened: "open_conns ?w = open_conns w - {c}" using w by (auto simp: open_conns_def)
  have "insert (Some c) (set (held ?w)) = Some ` open_conns w" "Some c \<notin> set (held ?w)" "distinct (held ?w)"
    using inv held by (auto simp: ssh_inv_def)
  then have "set (held ?w) = Some ` open_conns ?w" unfolding opened by (auto simp: inj_image_mem_iff)
  then show ?thesis
    using inv c(2) \<open>distinct (held ?w)\<close> split w by (auto simp: ssh_inv_def sm_wf_def open_conns_def)
qed (use inv in \<open>simp add: Manager_Close_def\<close>)

lemma ssh_inv_run: "ssh_inv w \<Longrightarrow> ssh_inv (ssh_run ops w)"
proof (induction ops w rule: ssh_run.induct)
  case (2 e host config ops w)
  then show ?case using ssh_inv_get [of w e host config] by simp
next
  case (3 host ops w)
  then show ?case using ssh_inv_close [of w host] by simp
qed simp

lemma ssh_inv_New: "ssh_inv NewManager"
  by (simp add: ssh_inv_def NewManager_def open_conns_def held_def)

lemma keepalive_range:
  "set (sm_range (\<lambda>key p sent. (True, case C_Client (W_heap w ! p) of None \<Rightarrow> sent | Some c \<Rightarrow> sent @ [c])) m acc) =
    set acc \<union> {c. \<exists>e\<in>set m. conn_at w (snd e) = Some c}"
proof (induction m arbitrary: acc)
  case (Cons e m)
  then show ?case by (cases e; cases "conn_at w (snd e)") (auto simp: conn_at_def)
qed simp

lemma keepalive_held: "set (keepalive_tick w) = {c. Some c \<in> set (held w)}"
proof -
  have "Some c \<in> set (held w) \<longleftrightarrow> (\<exists>e\<in>set (W_clients w). conn_at w (snd e) = Some c)" for c
    unfolding held_def set_map image_iff by (metis (no_types, lifting))
  then show ?thesis by (simp add: keepalive_tick_def keepalive_range)
qed

text \<open>The uninterrupted steps of one thread.\<close>

lemmas goc_intros = Load_hit Load_miss Dial_fails Dial_ok Store

lemma goc_path:
  "goc_step host config s s1 \<Longrightarrow> (goc_step host config)\<^sup>*\<^sup>* s1 s2 \<Longrightarrow> (goc_step host config)\<^sup>*\<^sup>* s s2"
  by (rule converse_rtranclp_into_rtranclp)

lemma goc_uninterrupted:
  assumes start: "G_pcs s t = AtLoad"
  shows "(goc_step host config)\<^sup>*\<^sup>* s
    \<lparr>G_world = snd (GetOrCreate e host config (G_world s)),
     G_pcs = (G_pcs s)(t := Returned (fst (GetOrCreate e host config (G_world s))))\<rparr>"
proof -
  let ?final = "\<lparr>G_world = snd (GetOrCreate e host config (G_world s)),
     G_pcs = (G_pcs s)(t := Returned (fst (GetOrCreate e host config (G_world s))))\<rparr>"
  show ?thesis
  proof (cases "goc_load host (G_world s)")
    case (Some p)
    then have "?final = s\<lparr>G_pcs := (G_pcs s)(t := Returned (Inr p))\<rparr>" by (simp add: GetOrCreate_hit)
    then show ?thesis using Load_hit [of s t host p config] start Some by simp
  next
    case None
    let ?s1 = "s\<lparr>G_pcs := (G_pcs s)(t := AtDial)\<rparr>"
    have "goc_step host config s ?s1" using start None by (rule Load_miss)
    moreover have "(goc_step host config)\<^sup>*\<^sup>* ?s1 ?final"
    proof (cases e)
      case (Some err)
      have "goc_dial (Some err) config (G_world ?s1) = (Inl (ErrDial err), G_world s)"
        by (simp add: goc_dial_def Connect_def)
      then have "goc_step host config ?s1 \<lparr>G_world = G_world s, G_pcs = (G_pcs ?s1)(t := Returned (Inl (ErrDial err)))\<rparr>"
        by (rule Dial_fails [rotated]) simp
      then show ?thesis using None Some by (simp add: GetOrCreate_err)
    next
      case e: None
      let ?p = "length (W_heap (G_world s))" and ?w = "snd (goc_dial None config (G_world s))"
      let ?s2 = "\<lparr>G_world = ?w, G_pcs = (G_pcs ?s1)(t := AtStore ?p)\<rparr>"
      have "goc_dial None config (G_world ?s1) = (Inr ?p, ?w)" by (simp add: goc_dial_ok)
      then have "goc_step host config ?s1 ?s2" by (rule Dial_ok [rotated]) simp
      moreover have "goc_step host config ?s2
          \<lparr>G_world = goc_store host ?p (G_world ?s2), G_pcs = (G_pcs ?s2)(t := Returned (Inr ?p))\<rparr>"
        by (rule Store) simp
      ultimately show ?thesis using None e by (simp add: GetOrCreate_new goc_path)
    qed
    ultimately show ?thesis by (rule goc_path)
  qed
qed

text \<open>Two threads that both find no client.\<close>

definition two_threads :: "goc_pc \<Rightarrow> goc_pc \<Rightarrow> nat \<Rightarrow> goc_pc" where
  "two_threads a b t = (if t = 0 then a else if t = 1 then b else AtLoad)"

lemma two_threads_simps [simp]:
  "two_threads a b 0 = a" "two_threads a b (Suc 0) = b"
  "(two_threads a b)(0 := c) = two_threads c b" "(two_threads a b)(Suc 0 := c) = two_threads a c"
  by (simp_all add: two_threads_def fun_eq_iff)

definition goc_start :: "'auth goc_state" where
  "goc_start = \<lparr>G_world = NewManager, G_pcs = two_threads AtLoad AtLoad\<rparr>"

definition raced :: "string \<Rightarrow> 'auth ClientConfig \<Rightarrow> 'auth goc_state" where
  "raced host config =
     \<lparr>G_world = \<lparr>W_heap = [\<lparr>C_Config = config, C_Client = Some 0\<rparr>, \<lparr>C_Config = config, C_Client = Some 1\<rparr>],
        W_clients = [(host, 1)], W_next = 2, W_closed = []\<rparr>,
      G_pcs = two_threads (Returned (Inr 0)) (Returned (Inr 1))\<rparr>"

lemma goc_race: "(goc_step host config)\<^sup>*\<^sup>* goc_start (raced host config)"
proof -
  let ?c = "\<lambda>n. \<lparr>C_Config = config, C_Client = Some n\<rparr>"
  let ?w = "\<lambda>heap m n. \<lparr>W_heap = heap, W_clients = m, W_next = n, W_closed = []\<rparr>"
  let ?s = "\<lambda>w a b. \<lparr>G_world = w, G_pcs = two_threads a b\<rparr>"
  note eval = goc_load_def goc_dial_ok goc_store_def sm_store_def
  have "goc_step host config (?s (?w [] [] 0) AtLoad AtLoad) (?s (?w [] [] 0) AtDial AtLoad)"
    using Load_miss [of "?s (?w [] [] 0) AtLoad AtLoad" 0 host config] by (simp add: eval)
  moreover have "goc_step host config (?s (?w [] [] 0) AtDial AtLoad) (?s (?w [] [] 0) AtDial AtDial)"
    using Load_miss [of "?s (?w [] [] 0) AtDial AtLoad" 1 host config] by (simp add: eval)
  moreover have "goc_step host config (?s (?w [] [] 0) AtDial AtDial) (?s (?w [?c 0] [] 1) (AtStore 0) AtDial)"
    using Dial_ok [of "?s (?w [] [] 0) AtDial AtDial" 0 config 0 "?w [?c 0] [] 1" host] by (simp add: eval)
  moreover have "goc_step host config (?s (?w [?c 0] [] 1) (AtStore 0) AtDial)
      (?s (?w [?c 0, ?c 1] [] 2) (AtStore 0) (AtStore 1))"
    using Dial_ok [of "?s (?w [?c 0] [] 1) (AtStore 0) AtDial" 1 config 1 "?w [?c 0, ?c 1] [] 2" host]
    by (simp add: eval)
  moreover have "goc_step host config (?s (?w [?c 0, ?c 1] [] 2) (AtStore 0) (AtStore 1))
      (?s (?w [?c 0, ?c 1] [(host, 0)] 2) (Returned (Inr 0)) (AtStore 1))"
    using Store [of "?s (?w [?c 0, ?c 1] [] 2) (AtStore 0) (AtStore 1)" 0 0 host config] by (simp add: eval)
  moreover have "goc_step host config (?s (?w [?c 0, ?c 1] [(host, 0)] 2) (Returned (Inr 0)) (AtStore 1))
      (?s (?w [?c 0, ?c 1] [(host, 1)] 2) (Returned (Inr 0)) (Returned (Inr 1)))"
    using Store [of "?s (?w [?c 0, ?c 1] [(host, 0)] 2) (Returned (Inr 0)) (AtStore 1)" 1 1 host config]
    by (simp add: eval)
  ultimately have "(goc_step host config)\<^sup>*\<^sup>* (?s (?w [] [] 0) AtLoad AtLoad)
      (?s (?w [?c 0, ?c 1] [(host, 1)] 2) (Returned (Inr 0)) (Returned (Inr 1)))"
    by (meson goc_path rtranclp.rtrancl_refl)
  then show ?thesis by (simp add: goc_start_def NewManager_def raced_def)
qed

section \<open>Properties\<close>

definition pty_window :: "session_call \<Rightarrow> (int \<times> int) option" where
  \<comment> \<open>columns and rows of the terminal requested\<close>
  "pty_window call = (case call of RequestPty term height width modes \<Rightarrow> Some (width, height) | _ \<Rightarrow> None)"

text \<open>C35: opening a terminal. It succeeds exactly when the client is connected and no step of the session
  fails; a session that was opened is closed once, as the last call, exactly when a later step fails. The window
  has its sides exchanged: the width is passed as the height (\<open>RequestPty\<close> takes the height first).\<close>

theorem open_pty_contract:
  assumes "OpenPTY env cols rows c = (res, calls)"
  shows "((\<exists>s. res = Inr s) \<longleftrightarrow> (\<exists>s. NewSession (PE_session env) c = Inr s) \<and> PE_pty env = None \<and>
      PE_stdin env = None \<and> PE_stdout env = None \<and> PE_stderr env = None \<and> PE_shell env = None) \<and>
    (calls = [] \<longleftrightarrow> (\<exists>err. NewSession (PE_session env) c = Inl err)) \<and>
    (calls \<noteq> [] \<longrightarrow> pty_window (hd calls) = Some (rows, cols)) \<and>
    (SessionClose \<in> set calls \<longleftrightarrow> (\<exists>s err. NewSession (PE_session env) c = Inr s \<and> res = Inl err)) \<and>
    SessionClose \<notin> set (butlast calls)"
proof (cases "NewSession (PE_session env) c")
  case (Inl err)
  show ?thesis unfolding Inl using assms by (auto simp: OpenPTY_def Inl)
next
  case (Inr s)
  show ?thesis
    unfolding Inr using assms by (auto simp: OpenPTY_def Inr Let_def pty_window_def split: option.splits)
qed

definition good_env :: pty_env where
  "good_env = \<lparr>PE_session = \<lambda>c. Inr 7, PE_pty = None, PE_stdin = None, PE_stdout = None, PE_stderr = None,
     PE_shell = None\<rparr>"

theorem open_pty_contract_witness:
  "\<exists>calls. OpenPTY good_env 80 24 \<lparr>C_Config = NewClientConfig ''root'' ([] :: unit list), C_Client = Some 0\<rparr> =
      (Inr 7, calls) \<and> pty_window (hd calls) = Some (24, 80)"
proof -
  let ?c = "\<lparr>C_Config = NewClientConfig ''root'' ([] :: unit list), C_Client = Some 0\<rparr>"
  obtain res calls where run: "OpenPTY good_env 80 24 ?c = (res, calls)" by fastforce
  then have "res = Inr 7" "calls \<noteq> []" by (auto simp: OpenPTY_def good_env_def NewSession_def Let_def)
  then show ?thesis using open_pty_contract [OF run] run by auto
qed

text \<open>C13: in sequence the manager loses no connection. After any calls of \<open>GetOrCreate\<close> and \<open>Close\<close>, one after
  the other and whatever the dials answer, no two hosts share a connection, and the connections a keepalive tick
  reaches are exactly those that were dialled and not closed.\<close>

theorem manager_no_leak:
  "set (keepalive_tick (ssh_run ops NewManager)) = open_conns (ssh_run ops NewManager) \<and>
   distinct (held (ssh_run ops NewManager)) \<and>
   None \<notin> set (held (ssh_run ops NewManager))"
  using ssh_inv_run [OF ssh_inv_New, of ops] by (auto simp: ssh_inv_def keepalive_held)

text \<open>C14: concurrent calls lose a connection. A call of \<open>GetOrCreate\<close> that is not interrupted is one run of
  its steps, for any answer of the dial; but two calls for one host may both dial, and then each caller has its
  own client, closing the host succeeds and leaves nothing registered, and a connection stays open that no later
  call of the manager can close.\<close>

theorem get_or_create_races:
  fixes config :: "'auth ClientConfig"
  assumes "G_pcs s t = AtLoad"
  shows "(goc_step host config)\<^sup>*\<^sup>* s
      \<lparr>G_world = snd (GetOrCreate e host config (G_world s)),
       G_pcs = (G_pcs s)(t := Returned (fst (GetOrCreate e host config (G_world s))))\<rparr> \<and>
    (\<exists>s2 :: 'auth goc_state. (goc_step host config)\<^sup>*\<^sup>* goc_start s2 \<and>
      G_pcs s2 0 = Returned (Inr 0) \<and> G_pcs s2 1 = Returned (Inr 1) \<and>
      (\<exists>w. Manager_Close host (G_world s2) = (None, w) \<and> W_clients w = [] \<and> open_conns w = {0}))"
proof
  show "(goc_step host config)\<^sup>*\<^sup>* s
      \<lparr>G_world = snd (GetOrCreate e host config (G_world s)),
       G_pcs = (G_pcs s)(t := Returned (fst (GetOrCreate e host config (G_world s))))\<rparr>"
    using assms by (rule goc_uninterrupted)
  have "\<exists>w. Manager_Close host (G_world (raced host config)) = (None, w) \<and> W_clients w = [] \<and> open_conns w = {0}"
    by (auto simp: Manager_Close_def raced_def sm_load_def sm_delete_def open_conns_def less_2_cases_iff)
  then show "\<exists>s2 :: 'auth goc_state. (goc_step host config)\<^sup>*\<^sup>* goc_start s2 \<and>
      G_pcs s2 0 = Returned (Inr 0) \<and> G_pcs s2 1 = Returned (Inr 1) \<and>
      (\<exists>w. Manager_Close host (G_world s2) = (None, w) \<and> W_clients w = [] \<and> open_conns w = {0})"
    using goc_race [of host config] by (intro exI [of _ "raced host config"]) (simp add: raced_def)
qed

theorem get_or_create_races_witness:
  "\<exists>s2 :: unit goc_state. (goc_step ''h'' (NewClientConfig ''root'' []))\<^sup>*\<^sup>* goc_start s2 \<and>
     G_pcs s2 0 = Returned (Inr 0) \<and> G_pcs s2 1 = Returned (Inr 1)"
proof -
  have "G_pcs (goc_start :: unit goc_state) 0 = AtLoad" by (simp add: goc_start_def)
  from get_or_create_races [OF this, of "''h''" "NewClientConfig ''root'' []"] show ?thesis by blast
qed

end
