(* ===== verification/Config.thy ===== *)
theory Config
  imports GoRuntime Float64
begin

text \<open>
  \<open>internal/config/config.go\<close>: the process-wide configuration, loaded once through viper. Viper is
  third-party code and a parameter: a record of the functions the code calls, on a state of the instance.
  The functions that read a value also depend on the environment of the process.
\<close>

section \<open>Data\<close>

record ServerConfig =
  SC_Port :: int
  SC_ReadTimeout :: int
  SC_WriteTimeout :: int
  SC_IdleTimeout :: int

record RedisConfig =
  RC_Addr :: string
  RC_Password :: string
  RC_DB :: int

record ResourceConfig =
  XC_MaxFDLimit :: float64
  XC_FDDangerRatio :: float64
  XC_MaxSessions :: int
  XC_MaxSessionsPerUser :: int

record Config =
  ServerConfig :: ServerConfig
  RedisConfig :: RedisConfig
  ResourceConfig :: ResourceConfig

datatype cfg_value = VInt int | VFloat float64 | VString string

type_synonym environ = "string \<Rightarrow> string option"

record 'v viper =
  SetDefault :: "string \<Rightarrow> cfg_value \<Rightarrow> 'v \<Rightarrow> 'v"
  AutomaticEnv :: "'v \<Rightarrow> 'v"
  SetConfigName :: "string \<Rightarrow> 'v \<Rightarrow> 'v"
  SetConfigType :: "string \<Rightarrow> 'v \<Rightarrow> 'v"
  AddConfigPath :: "string \<Rightarrow> 'v \<Rightarrow> 'v"
  ReadInConfig :: "'v \<Rightarrow> string option \<times> 'v" \<comment> \<open>the error; the files are part of the instance\<close>
  GetInt :: "environ \<Rightarrow> 'v \<Rightarrow> string \<Rightarrow> int"
  GetString :: "environ \<Rightarrow> 'v \<Rightarrow> string \<Rightarrow> string"
  GetFloat64 :: "environ \<Rightarrow> 'v \<Rightarrow> string \<Rightarrow> float64"

record 'v config_state =
  CS_cfg :: "Config option"
  CS_done :: bool \<comment> \<open>has \<open>once\<close> run?\<close>
  CS_viper :: 'v \<comment> \<open>the global instance\<close>

section \<open>Loading\<close>

definition defaults :: "(string \<times> cfg_value) list" where
  "defaults =
     [(''server.port'', VInt 8080), (''server.read_timeout'', VInt 15), (''server.write_timeout'', VInt 15),
      (''server.idle_timeout'', VInt 60), (''redis.addr'', VString ''localhost:6379''),
      (''redis.password'', VString []), (''redis.db'', VInt 0), (''resource.max_fd_limit'', VInt 4096),
      (''resource.fd_danger_ratio'', VFloat (Finite (fl (85 / 100)))),
      (''resource.max_sessions'', VInt 1000), (''resource.max_sessions_per_user'', VInt 20)]"

definition prepared :: "'v viper \<Rightarrow> 'v \<Rightarrow> 'v" where
  \<comment> \<open>the instance before the configuration file is read\<close>
  "prepared V v =
     (let v = fold (\<lambda>(key, val). SetDefault V key val) defaults v;
          v = AutomaticEnv V v;
          v = SetConfigName V ''config'' v;
          v = SetConfigType V ''yaml'' v;
          v = AddConfigPath V ''.'' v
      in AddConfigPath V ''./configs'' v)"

definition read_values :: "'v viper \<Rightarrow> environ \<Rightarrow> 'v \<Rightarrow> Config" where
  "read_values V env v =
     \<lparr>ServerConfig = \<lparr>SC_Port = GetInt V env v ''server.port'',
        SC_ReadTimeout = GetInt V env v ''server.read_timeout'',
        SC_WriteTimeout = GetInt V env v ''server.write_timeout'',
        SC_IdleTimeout = GetInt V env v ''server.idle_timeout''\<rparr>,
      RedisConfig = \<lparr>RC_Addr = GetString V env v ''redis.addr'',
        RC_Password = GetString V env v ''redis.password'',
        RC_DB = GetInt V env v ''redis.db''\<rparr>,
      ResourceConfig = \<lparr>XC_MaxFDLimit = GetFloat64 V env v ''resource.max_fd_limit'',
        XC_FDDangerRatio = GetFloat64 V env v ''resource.fd_danger_ratio'',
        XC_MaxSessions = GetInt V env v ''resource.max_sessions'',
        XC_MaxSessionsPerUser = GetInt V env v ''resource.max_sessions_per_user''\<rparr>\<rparr>"

definition Load :: "'v viper \<Rightarrow> environ \<Rightarrow> 'v config_state \<Rightarrow> string option \<times> 'v config_state" where
  \<comment> \<open>the error of \<open>ReadInConfig\<close> is overwritten with nil\<close>
  "Load V env s =
     (if CS_done s then (None, s)
      else (let v = prepared V (CS_viper s); (err, v) = ReadInConfig V v;
                err = (if err \<noteq> None then None else err)
            in (err, \<lparr>CS_cfg = Some (read_values V env v), CS_done = True, CS_viper = v\<rparr>)))"

definition Get_config :: "'v config_state \<Rightarrow> Config go" where
  "Get_config s =
     (case CS_cfg s of
        None \<Rightarrow> Inl (PanicValue ''config not loaded, call Load() first'')
      | Some c \<Rightarrow> Inr c)"

definition config_start :: "'v \<Rightarrow> 'v config_state" where
  "config_start v = \<lparr>CS_cfg = None, CS_done = False, CS_viper = v\<rparr>"

definition Config_String :: "Config \<Rightarrow> string" where
  "Config_String c =
     ''Server{Port:'' @ fmt_int (SC_Port (ServerConfig c)) @ ''}, Redis{'' @ RC_Addr (RedisConfig c) @
     ''}, Resource{MaxSessions:'' @ fmt_int (XC_MaxSessions (ResourceConfig c)) @ '', MaxSessionsPerUser:'' @
     fmt_int (XC_MaxSessionsPerUser (ResourceConfig c)) @ ''}''"

section \<open>What viper documents\<close>

definition upper_char :: "char \<Rightarrow> char" where
  "upper_char c = (if 97 \<le> (of_char c :: nat) \<and> (of_char c :: nat) \<le> 122 then char_of ((of_char c :: nat) - 32) else c)"

definition env_name :: "string \<Rightarrow> string" where
  \<comment> \<open>with \<open>AutomaticEnv\<close> and neither a prefix nor a key replacer: the key in upper case\<close>
  "env_name key = map upper_char key"

definition env_only_by_name :: "'v viper \<Rightarrow> bool" where
  \<comment> \<open>reading a key looks at no environment variable but the key's own\<close>
  "env_only_by_name V \<longleftrightarrow> (\<forall>env env' v key. env (env_name key) = env' (env_name key) \<longrightarrow>
     GetInt V env v key = GetInt V env' v key \<and> GetString V env v key = GetString V env' v key \<and>
     GetFloat64 V env v key = GetFloat64 V env' v key)"

definition default_laws :: "'v viper \<Rightarrow> ('v \<Rightarrow> string \<Rightarrow> cfg_value option) \<Rightarrow> bool" where
  \<comment> \<open>the value a key has without the environment: set by \<open>SetDefault\<close>, unchanged by the settings and by a failing
    read, and what the readers return when the variable of the key is not set\<close>
  "default_laws V look \<longleftrightarrow>
     (\<forall>key val v. look (SetDefault V key val v) = (look v)(key \<mapsto> val)) \<and>
     (\<forall>v. look (AutomaticEnv V v) = look v) \<and> (\<forall>s v. look (SetConfigName V s v) = look v) \<and>
     (\<forall>s v. look (SetConfigType V s v) = look v) \<and> (\<forall>s v. look (AddConfigPath V s v) = look v) \<and>
     (\<forall>v err v'. ReadInConfig V v = (Some err, v') \<longrightarrow> look v' = look v) \<and>
     (\<forall>env v key. env (env_name key) = None \<longrightarrow>
        (\<forall>i. look v key = Some (VInt i) \<longrightarrow> GetInt V env v key = i \<and> (0 \<le> i \<longrightarrow> GetFloat64 V env v key = float64_of (nat i))) \<and>
        (\<forall>f. look v key = Some (VFloat f) \<longrightarrow> GetFloat64 V env v key = f) \<and>
        (\<forall>x. look v key = Some (VString x) \<longrightarrow> GetString V env v key = x))"

text \<open>An instance with these properties: a value is looked up in the environment, then among the values set.\<close>

type_synonym plain_store = "(string \<times> cfg_value) list"

definition plain_int :: "environ \<Rightarrow> plain_store \<Rightarrow> string \<Rightarrow> int" where
  "plain_int env v key =
     (case env (env_name key) of
        Some digits \<Rightarrow> foldl (\<lambda>n c. n * 10 + (of_char c - 48)) 0 digits
      | None \<Rightarrow> (case map_of v key of Some (VInt i) \<Rightarrow> i | _ \<Rightarrow> 0))"

definition plain_string :: "environ \<Rightarrow> plain_store \<Rightarrow> string \<Rightarrow> string" where
  "plain_string env v key =
     (case env (env_name key) of
        Some text \<Rightarrow> text
      | None \<Rightarrow> (case map_of v key of Some (VString x) \<Rightarrow> x | _ \<Rightarrow> []))"

definition plain_float :: "environ \<Rightarrow> plain_store \<Rightarrow> string \<Rightarrow> float64" where
  "plain_float env v key =
     (case env (env_name key) of
        Some text \<Rightarrow> Finite 0
      | None \<Rightarrow> (case map_of v key of
          Some (VFloat f) \<Rightarrow> f | Some (VInt i) \<Rightarrow> float64_of (nat i) | _ \<Rightarrow> Finite 0))"

definition plain_viper :: "plain_store viper" where
  "plain_viper = \<lparr>SetDefault = \<lambda>key val v. (key, val) # v, AutomaticEnv = \<lambda>v. v, SetConfigName = \<lambda>s v. v,
     SetConfigType = \<lambda>s v. v, AddConfigPath = \<lambda>s v. v, ReadInConfig = \<lambda>v. (Some ''not found'', v),
     GetInt = plain_int, GetString = plain_string, GetFloat64 = plain_float\<rparr>"

lemma plain_viper_env: "env_only_by_name plain_viper"
  by (simp add: env_only_by_name_def plain_viper_def plain_int_def plain_string_def plain_float_def)

lemma plain_viper_laws: "default_laws plain_viper map_of"
  by (simp add: default_laws_def plain_viper_def plain_int_def plain_string_def plain_float_def fun_eq_iff)

section \<open>Properties\<close>

lemma dot_env_name: "CHR ''.'' \<in> set key \<Longrightarrow> CHR ''.'' \<in> set (env_name key)"
  by (auto simp: env_name_def upper_char_def image_iff intro!: bexI [of _ "CHR ''.''"])

lemma Load_first: "\<exists>v. Load V env (config_start v0) =
    (None, \<lparr>CS_cfg = Some (read_values V env v), CS_done = True, CS_viper = v\<rparr>) \<and>
    v = snd (ReadInConfig V (prepared V v0))"
  by (auto simp: Load_def config_start_def Let_def split: prod.split)

text \<open>The configuration is loaded once and never refused. Before the first \<open>Load\<close>, \<open>Get\<close> panics; the first
  one succeeds whatever reading the file answers, a malformed file included; every later one changes nothing,
  whatever the environment is then, so \<open>Get\<close> keeps its answer.\<close>

theorem load_once:
  "Get_config (config_start v0) = Inl (PanicValue ''config not loaded, call Load() first'') \<and>
   (\<exists>s1. Load V env (config_start v0) = (None, s1) \<and>
      Get_config s1 = Inr (read_values V env (snd (ReadInConfig V (prepared V v0)))) \<and>
      (\<forall>V' env'. Load V' env' s1 = (None, s1)))"
  using Load_first [of V env v0]
  by (auto simp: Get_config_def config_start_def Load_def)


definition one_variable :: "string \<Rightarrow> string \<Rightarrow> environ" where
  "one_variable name text = [name \<mapsto> text]"


text \<open>The defaults. Without a readable configuration file and without a variable named by a key, the loaded
  configuration is this one, whatever the instance held before.\<close>

theorem load_defaults:
  assumes laws: "default_laws V look"
    and no_file: "fst (ReadInConfig V (prepared V v0)) = Some err"
    and no_env: "\<And>name. CHR ''.'' \<in> set name \<Longrightarrow> env name = None"
  shows "Get_config (snd (Load V env (config_start v0))) = Inr
    \<lparr>ServerConfig = \<lparr>SC_Port = 8080, SC_ReadTimeout = 15, SC_WriteTimeout = 15, SC_IdleTimeout = 60\<rparr>,
     RedisConfig = \<lparr>RC_Addr = ''localhost:6379'', RC_Password = [], RC_DB = 0\<rparr>,
     ResourceConfig = \<lparr>XC_MaxFDLimit = float64_of 4096, XC_FDDangerRatio = Finite (fl (85 / 100)),
       XC_MaxSessions = 1000, XC_MaxSessionsPerUser = 20\<rparr>\<rparr>"
proof -
  obtain v where v: "ReadInConfig V (prepared V v0) = (Some err, v)" using no_file by (metis prod.collapse)
  have "look v = look (prepared V v0)" using laws v unfolding default_laws_def by blast
  also have "\<dots> = look (fold (\<lambda>(key, val). SetDefault V key val) defaults v0)"
    using laws by (simp add: prepared_def Let_def default_laws_def)
  finally have look: "look v = (look v0)(''server.port'' \<mapsto> VInt 8080, ''server.read_timeout'' \<mapsto> VInt 15,
      ''server.write_timeout'' \<mapsto> VInt 15, ''server.idle_timeout'' \<mapsto> VInt 60,
      ''redis.addr'' \<mapsto> VString ''localhost:6379'', ''redis.password'' \<mapsto> VString [], ''redis.db'' \<mapsto> VInt 0,
      ''resource.max_fd_limit'' \<mapsto> VInt 4096, ''resource.fd_danger_ratio'' \<mapsto> VFloat (Finite (fl (85 / 100))),
      ''resource.max_sessions'' \<mapsto> VInt 1000, ''resource.max_sessions_per_user'' \<mapsto> VInt 20)"
    using laws by (simp add: default_laws_def defaults_def)
  have reads: "look v key = Some (VInt i) \<Longrightarrow> GetInt V env v key = i"
    "look v key = Some (VInt i) \<Longrightarrow> 0 \<le> i \<Longrightarrow> GetFloat64 V env v key = float64_of (nat i)"
    "look v key = Some (VFloat f) \<Longrightarrow> GetFloat64 V env v key = f"
    "look v key = Some (VString x) \<Longrightarrow> GetString V env v key = x"
    if "CHR ''.'' \<in> set key" for key i f x
    using laws no_env [OF dot_env_name [OF that]] unfolding default_laws_def by blast+
  show ?thesis
    using v by (simp add: Get_config_def Load_def config_start_def read_values_def reads look)
qed

theorem load_defaults_witness:
  "\<exists>c. Get_config (snd (Load plain_viper (one_variable ''SERVER_PORT'' ''9090'') (config_start []))) = Inr c \<and>
     SC_Port (ServerConfig c) = 8080"
  by (subst load_defaults [OF plain_viper_laws, of "[]" "''not found''"])
    (auto simp: plain_viper_def one_variable_def)

end
