(* ===== verification/ServerMain.thy ===== *)
theory ServerMain
  imports Config Graceful
begin

text \<open>
  \<open>cmd/server/main.go\<close>: the start-up of the gateway, the signal loop and the shutdown after it, on the hub,
  the graceful manager and the configuration of the other theories. The answers of the operating system, of
  viper and of the HTTP server are arguments; the goroutines of the connections appear as the steps
  \<open>gateway_step\<close> they make on the hub.
\<close>

section \<open>Start-up\<close>

datatype signal = SIGINT | SIGTERM | SIGUSR2

record http_server =
  HS_Addr :: string
  HS_ReadTimeout :: duration
  HS_WriteTimeout :: duration
  HS_IdleTimeout :: duration

datatype run_error =
    ErrLoadConfig string
  | ErrPreFlightFailed guard_error
  | ErrServerShutdown string

datatype main_pc =
    SignalLoop
  | AfterLoop \<comment> \<open>at the shutdown of the server\<close>
  | RunReturned "run_error option"
  | Crashed go_panic
  | LogFatal string

record main_state =
  MS_pc :: main_pc
  MS_sigChan :: "signal chan"
  MS_cancelled :: bool \<comment> \<open>the context\<close>
  MS_world :: restart_world \<comment> \<open>the hub and the graceful manager\<close>
  MS_server :: http_server

definition seconds :: "int \<Rightarrow> duration" where
  \<comment> \<open>\<open>time.Duration(n) * time.Second\<close>\<close>
  "seconds n = wrap64 (n * Second)"

definition server_of :: "Config \<Rightarrow> http_server" where
  "server_of cfg = (let c = ServerConfig cfg in
     \<lparr>HS_Addr = '':'' @ fmt_int (SC_Port c), HS_ReadTimeout = seconds (SC_ReadTimeout c),
      HS_WriteTimeout = seconds (SC_WriteTimeout c), HS_IdleTimeout = seconds (SC_IdleTimeout c)\<rparr>)"

definition HubGlobal :: gateway where
  \<comment> \<open>the package variable \<open>server.HubGlobal\<close> at the start of \<open>main\<close>\<close>
  "HubGlobal = start_gateway NewHub"

record os_answers =
  OA_rlimit :: "os_error + nat"
  OA_statfs :: "os_error + statfs_result"
  OA_file :: "json option" \<comment> \<open>the state file left by an earlier process\<close>

definition run_start ::
  "'v viper \<Rightarrow> environ \<Rightarrow> os_answers \<Rightarrow> 'v config_state \<Rightarrow> (run_error + main_state) go \<times> 'v config_state" where
  \<comment> \<open>\<open>run\<close> up to the signal loop\<close>
  "run_start V env os cs =
     (case Load V env cs of
        (Some err, cs) \<Rightarrow> (Inr (Inl (ErrLoadConfig err)), cs)
      | (None, cs) \<Rightarrow>
          (case Get_config cs of
             Inl p \<Rightarrow> (Inl p, cs)
           | Inr cfg \<Rightarrow>
               (let guard = NewGuard DefaultMaxSessions
                in case PreFlight (OA_rlimit os) (OA_statfs os) of
                     Some err \<Rightarrow> (Inr (Inl (ErrPreFlightFailed err)), cs)
                   | None \<Rightarrow>
                       (Inr (Inr \<lparr>MS_pc = SignalLoop, MS_sigChan = make_chan 1, MS_cancelled = False,
                          MS_world = \<lparr>RW_hub = HubGlobal,
                            RW_gm = NewGracefulManager ''/var/run/gateway.sock'' ''1.0.0'',
                            RW_file = OA_file os, RW_closed = []\<rparr>,
                          MS_server = server_of cfg\<rparr>), cs))))"

section \<open>The signal loop\<close>

definition notify :: "signal \<Rightarrow> main_state \<Rightarrow> main_state" where
  \<comment> \<open>\<open>os/signal\<close> does not block: a signal that finds the channel full is lost\<close>
  "notify sig s =
     (case try_send (MS_sigChan s) sig of Inl p \<Rightarrow> s | Inr (sent, c) \<Rightarrow> s\<lparr>MS_sigChan := c\<rparr>)"

fun handle_signal :: "restart_env \<Rightarrow> signal \<Rightarrow> main_state \<Rightarrow> main_state" where
  \<comment> \<open>the body of the loop; the \<open>break\<close> of the default case ends the \<open>switch\<close>, not the loop\<close>
  "handle_signal env SIGUSR2 s =
     (case HandleUSR2Signal env (MS_world s) of
        Inl p \<Rightarrow> s\<lparr>MS_pc := Crashed p\<rparr>
      | Inr w \<Rightarrow> s\<lparr>MS_world := w\<rparr>)"
| "handle_signal env sig s = s\<lparr>MS_cancelled := True\<rparr>"

definition loop_round :: "restart_env \<Rightarrow> main_state \<Rightarrow> main_state option" where
  \<comment> \<open>one round of \<open>for sig := range sigChan\<close>; \<open>None\<close>: the receive blocks\<close>
  "loop_round env s =
     (case chan_recv (MS_sigChan s) of
        None \<Rightarrow> None
      | Some (None, c) \<Rightarrow> Some (s\<lparr>MS_pc := AfterLoop\<rparr>)
      | Some (Some sig, c) \<Rightarrow> Some (handle_signal env sig (s\<lparr>MS_sigChan := c\<rparr>)))"

definition shut_down :: "string option \<Rightarrow> main_state \<Rightarrow> main_state" where
  \<comment> \<open>with the result of \<open>server.Shutdown\<close>\<close>
  "shut_down res s = s\<lparr>MS_pc := RunReturned (case res of None \<Rightarrow> None | Some err \<Rightarrow> Some (ErrServerShutdown err))\<rparr>"

definition main_outcome :: "run_error option \<Rightarrow> main_pc" where
  \<comment> \<open>\<open>main\<close> after \<open>run\<close> has returned\<close>
  "main_outcome res =
     (case res of Some err \<Rightarrow> LogFatal ''failed to run server'' | None \<Rightarrow> RunReturned None)"

inductive main_step :: "main_state \<Rightarrow> main_state \<Rightarrow> bool" where
  signal_arrives: "MS_pc s \<in> {SignalLoop, AfterLoop} \<Longrightarrow> main_step s (notify sig s)"
| loop_turns: "MS_pc s = SignalLoop \<Longrightarrow> loop_round env s = Some s' \<Longrightarrow> main_step s s'"
| shuts_down: "MS_pc s = AfterLoop \<Longrightarrow> main_step s (shut_down res s)"
| main_ends: "MS_pc s = RunReturned res \<Longrightarrow> main_step s (s\<lparr>MS_pc := main_outcome res\<rparr>)"
| serve_fails: "MS_pc s \<in> {SignalLoop, AfterLoop} \<Longrightarrow> main_step s (s\<lparr>MS_pc := LogFatal err\<rparr>)"
| gateway_runs: "MS_pc s \<in> {SignalLoop, AfterLoop} \<Longrightarrow> gateway_step (RW_hub (MS_world s)) g \<Longrightarrow>
    main_step s (s\<lparr>MS_world := (MS_world s)\<lparr>RW_hub := g\<rparr>\<rparr>)"
| gateway_panics: "MS_pc s \<in> {SignalLoop, AfterLoop} \<Longrightarrow> main_step s (s\<lparr>MS_pc := Crashed p\<rparr>)"

inductive main_reachable :: "'v viper \<Rightarrow> main_state \<Rightarrow> bool" for V where
  started: "fst (run_start V env os cs) = Inr (Inr s) \<Longrightarrow> main_reachable V s"
| steps: "main_reachable V s \<Longrightarrow> main_step s s' \<Longrightarrow> main_reachable V s'"

inductive_cases main_step_loop: "main_step s s'"

section \<open>Lemmas\<close>

lemma run_start_ok:
  assumes "fst (run_start V env os cs) = Inr (Inr s)"
  shows "MS_pc s = SignalLoop" "MS_sigChan s = make_chan 1" "RW_hub (MS_world s) = HubGlobal" "\<not> MS_cancelled s"
  using assms
  by (auto simp: run_start_def split: prod.splits option.splits sum.splits)

text \<open>The hub under a restart signal.\<close>

lemma usr2_hub:
  assumes "HandleUSR2Signal env w = Inr w'"
  shows "gateway_step (RW_hub w) (RW_hub w')"
proof -
  obtain g where "BroadcastMaintenance restart_message (RW_hub w) = Inr g"
    using assms by (auto simp: HandleUSR2Signal_def split: sum.splits)
  moreover from this have "RW_hub w' = g"
    using assms
    by (auto simp: HandleUSR2Signal_def Let_def startHandoffListener_def split: sum.splits option.splits if_splits)
  ultimately show ?thesis
    by (auto simp: BroadcastMaintenance_def split: sum.splits intro: gateway_step.broadcast)
qed

definition main_inv :: "main_state \<Rightarrow> bool" where
  "main_inv s \<longleftrightarrow> \<not> ch_closed (MS_sigChan s) \<and> length (ch_buf (MS_sigChan s)) \<le> 1 \<and> ch_cap (MS_sigChan s) = 1 \<and>
     MS_pc s \<noteq> AfterLoop \<and> (\<nexists>res. MS_pc s = RunReturned res) \<and> gateway_reachable NewHub (RW_hub (MS_world s))"

lemma main_inv_notify: "main_inv s \<Longrightarrow> main_inv (notify sig s)"
  by (auto simp: main_inv_def notify_def try_send_def)

lemma main_inv_signal:
  assumes "main_inv s"
  shows "main_inv (handle_signal env sig s)"
proof (cases sig)
  case SIGUSR2
  show ?thesis
  proof (cases "HandleUSR2Signal env (MS_world s)")
    case (Inl p)
    then show ?thesis using assms SIGUSR2 by (simp add: main_inv_def)
  next
    case (Inr w)
    then have "gateway_reachable NewHub (RW_hub w)"
      using assms usr2_hub by (metis main_inv_def gateway_reachable.step)
    then show ?thesis using assms SIGUSR2 Inr by (simp add: main_inv_def)
  qed
qed (use assms in \<open>simp_all add: main_inv_def\<close>)

lemma main_inv_round:
  assumes "main_inv s" "loop_round env s = Some s'"
  shows "main_inv s'"
proof -
  obtain sig rest where "ch_buf (MS_sigChan s) = sig # rest"
    using assms by (cases "ch_buf (MS_sigChan s)") (auto simp: loop_round_def chan_recv_def main_inv_def)
  then have "s' = handle_signal env sig (s\<lparr>MS_sigChan := (MS_sigChan s)\<lparr>ch_buf := rest\<rparr>\<rparr>)"
    "main_inv (s\<lparr>MS_sigChan := (MS_sigChan s)\<lparr>ch_buf := rest\<rparr>\<rparr>)"
    using assms by (auto simp: loop_round_def chan_recv_def main_inv_def)
  then show ?thesis by (simp add: main_inv_signal)
qed

lemma main_reachable_inv: "main_reachable V s \<Longrightarrow> main_inv s"
proof (induction rule: main_reachable.induct)
  case (started env os cs s)
  have "gateway_reachable NewHub HubGlobal" unfolding HubGlobal_def by (rule gateway_reachable.start)
  then show ?case using run_start_ok [OF started] by (simp add: main_inv_def make_chan_def)
next
  case (steps s s')
  from steps(2,3) show ?case
  proof (induction rule: main_step.induct)
    case (signal_arrives s sig)
    then show ?case by (simp add: main_inv_notify)
  next
    case (loop_turns s env s')
    then show ?case by (simp add: main_inv_round)
  next
    case (gateway_runs s g)
    then show ?case by (auto simp: main_inv_def intro: gateway_reachable.step)
  qed (simp_all add: main_inv_def)
qed

text \<open>Nothing installs the limits of the endpoint.\<close>

definition unguarded :: "gateway \<Rightarrow> bool" where
  "unguarded g \<longleftrightarrow> H_RateLimiter (V_hub g) = None \<and> H_CircuitBreaker (V_hub g) = None \<and>
     H_SessionManager (V_hub g) = None"

lemma HandleWS_unguarded:
  "unguarded g \<Longrightarrow> HandleWS env r g =
     Inr (if W_upgrade env then (Serving (V_next g) InputHandler, registered 0 g) else (UpgradeFailed, g))"
  by (auto simp: unguarded_def HandleWS_def ws_limit_def ws_circuit_def ws_reconnect_def ws_register_eq Let_def
      split: option.split)

lemma broadcast_range_hub: "broadcast_range m data g = Inr g' \<Longrightarrow> V_hub g' = V_hub g"
proof (induction m data g rule: broadcast_range.induct)
  case (2 k p m data g)
  then obtain b chn where step: "try_send (K_Send (V_conns g p)) data = Inr (b, chn)"
    and rest: "broadcast_range m data (set_conn p ((V_conns g p)\<lparr>K_Send := chn\<rparr>) g) = Inr g'"
    by (auto split: sum.splits prod.splits)
  show ?case using 2(1) [OF step refl rest] by simp
qed simp

lemma gateway_reachable_unguarded: "gateway_reachable NewHub g \<Longrightarrow> unguarded g"
proof (induction rule: gateway_reachable.induct)
  case start
  then show ?case by (simp add: unguarded_def start_gateway_def NewHub_def)
next
  case (step g g')
  from step(2,3) show ?case
  proof (induction rule: gateway_step.induct)
    case (serve env r g res g')
    then show ?case using HandleWS_unguarded [of g env r]
      by (auto simp: registered_def unguarded_def split: if_splits)
  next
    case (broadcast data g g')
    then show ?case using broadcast_range_hub by (auto simp: Hub_Broadcast_def unguarded_def)
  qed (simp add: unguarded_def)
qed

section \<open>Properties\<close>

text \<open>Start-up. \<open>run\<close> reaches the signal loop exactly when the soft limit on descriptors is at least 4096 and
  the file system can be asked for its free space, whatever the configuration says; otherwise it returns an error, and
  it never panics. The server listens on the configured port, and the hub has no limits installed.\<close>

theorem run_start_contract:
  "case fst (run_start V env os (config_start v)) of
     Inl p \<Rightarrow> False
   | Inr (Inl err) \<Rightarrow> (\<exists>e. err = ErrPreFlightFailed e) \<and>
       (\<nexists>cur st. OA_rlimit os = Inr cur \<and> 4096 \<le> cur \<and> OA_statfs os = Inr st)
   | Inr (Inr s) \<Rightarrow> (\<exists>cur st. OA_rlimit os = Inr cur \<and> 4096 \<le> cur \<and> OA_statfs os = Inr st) \<and>
       MS_pc s = SignalLoop \<and> RW_hub (MS_world s) = HubGlobal \<and> unguarded HubGlobal \<and>
       HS_Addr (MS_server s) =
         '':'' @ fmt_int (GetInt V env (snd (ReadInConfig V (prepared V v))) ''server.port'')"
proof -
  obtain c where c: "Load V env (config_start v) = (None, c)"
    "Get_config c = Inr (read_values V env (snd (ReadInConfig V (prepared V v))))"
    using Load_first [of V env v] by (auto simp: Get_config_def)
  have "unguarded HubGlobal"
    unfolding HubGlobal_def by (rule gateway_reachable_unguarded [OF gateway_reachable.start])
  then show ?thesis
    by (auto simp: run_start_def c PreFlight_def CheckSystemResources_def CheckFDLimit_def MinFDLimit_def
        server_of_def read_values_def Let_def split: sum.split option.split)
qed

text \<open>C5: the gateway cannot be shut down by a signal. In every reachable state the signal channel is open, the
  code after the loop has not been reached and \<open>run\<close> has not returned; SIGINT and SIGTERM only cancel the context,
  which nothing waits for, and the loop then blocks for the next signal; a signal that arrives while another one is
  waiting is lost.\<close>

theorem never_shuts_down:
  assumes "main_reachable V s"
  shows "MS_pc s \<noteq> AfterLoop \<and> MS_pc s \<noteq> RunReturned res \<and> \<not> ch_closed (MS_sigChan s) \<and>
    handle_signal env SIGINT s = s\<lparr>MS_cancelled := True\<rparr> \<and>
    handle_signal env SIGTERM s = s\<lparr>MS_cancelled := True\<rparr> \<and>
    (if ch_buf (MS_sigChan s) = [] then loop_round env s = None else notify sig s = s)"
  using main_reachable_inv [OF assms]
  by (auto simp: main_inv_def loop_round_def chan_recv_def notify_def try_send_def Suc_le_eq)

definition enough :: os_answers where
  "enough = \<lparr>OA_rlimit = Inr 65536, OA_statfs = Inr \<lparr>Bavail = 1000000, Bsize = 4096\<rparr>, OA_file = None\<rparr>"

definition first_state :: main_state where
  "first_state = (case fst (run_start plain_viper (\<lambda>_. None) enough (config_start [])) of
     Inr (Inr s) \<Rightarrow> s | _ \<Rightarrow> undefined)"

lemma first_reachable: "main_reachable plain_viper first_state"
proof -
  have "\<exists>s. fst (run_start plain_viper (\<lambda>_. None) enough (config_start [])) = Inr (Inr s)"
    by (simp add: run_start_def Load_def config_start_def plain_viper_def prepared_def Get_config_def PreFlight_def
        CheckSystemResources_def CheckFDLimit_def enough_def MinFDLimit_def Let_def split_def)
  then show ?thesis by (auto simp: first_state_def intro: main_reachable.started)
qed

lemma first_parts:
  "MS_pc first_state = SignalLoop" "MS_sigChan first_state = make_chan 1" "RW_hub (MS_world first_state) = HubGlobal"
proof -
  have "\<exists>s. fst (run_start plain_viper (\<lambda>_. None) enough (config_start [])) = Inr (Inr s)"
    by (simp add: run_start_def Load_def config_start_def plain_viper_def prepared_def Get_config_def PreFlight_def
        CheckSystemResources_def CheckFDLimit_def enough_def MinFDLimit_def Let_def split_def)
  then have "fst (run_start plain_viper (\<lambda>_. None) enough (config_start [])) = Inr (Inr first_state)"
    by (auto simp: first_state_def)
  then show "MS_pc first_state = SignalLoop" "MS_sigChan first_state = make_chan 1"
    "RW_hub (MS_world first_state) = HubGlobal"
    by (rule run_start_ok)+
qed

definition quiet_restart :: restart_env where
  "quiet_restart = \<lparr>RE_write = None, RE_listen = Inr 3\<rparr>"

definition after_sigterm :: main_state where
  "after_sigterm = notify SIGTERM first_state"

theorem never_shuts_down_witness:
  "\<exists>s'. loop_round quiet_restart after_sigterm = Some s' \<and> MS_pc s' = SignalLoop \<and> MS_cancelled s' \<and>
     loop_round quiet_restart s' = None"
proof -
  have sent: "MS_sigChan after_sigterm = \<lparr>ch_buf = [SIGTERM], ch_cap = 1, ch_closed = False\<rparr>"
    "MS_pc after_sigterm = SignalLoop"
    by (simp_all add: after_sigterm_def notify_def try_send_def first_parts make_chan_def)
  have "main_step first_state after_sigterm"
    unfolding after_sigterm_def by (rule signal_arrives) (simp add: first_parts)
  then have reach: "main_reachable plain_viper after_sigterm"
    using first_reachable by (rule main_reachable.steps [rotated])
  define s1 where "s1 = after_sigterm\<lparr>MS_sigChan := make_chan 1\<rparr>"
  have round1: "loop_round quiet_restart after_sigterm = Some (s1\<lparr>MS_cancelled := True\<rparr>)"
    by (simp add: loop_round_def chan_recv_def sent s1_def make_chan_def)
  have "main_step after_sigterm (s1\<lparr>MS_cancelled := True\<rparr>)"
    using round1 by (rule loop_turns [rotated]) (simp add: sent)
  with reach have "main_reachable plain_viper (s1\<lparr>MS_cancelled := True\<rparr>)" by (rule main_reachable.steps)
  from never_shuts_down [OF this, of _ quiet_restart] have "loop_round quiet_restart (s1\<lparr>MS_cancelled := True\<rparr>) = None"
    by (simp add: s1_def make_chan_def)
  then show ?thesis using round1 by (simp add: s1_def sent)
qed

text \<open>C2: the running gateway is open. In every reachable state the endpoint refuses no request, however often an
  address asks and however many descriptors are open; each upgraded request gets a new connection that is served
  with the input handler, reconnection included, and that handler passes every message on unchanged.\<close>

theorem running_gateway_is_open:
  assumes "main_reachable V s"
  shows "HandleWS env r (RW_hub (MS_world s)) =
      Inr (if W_upgrade env then (Serving (V_next (RW_hub (MS_world s))) InputHandler, registered 0 (RW_hub (MS_world s)))
           else (UpgradeFailed, RW_hub (MS_world s))) \<and>
    handler_of riskEngine InputHandler connID msg = msg"
proof
  have "unguarded (RW_hub (MS_world s))"
    using main_reachable_inv [OF assms] by (simp add: main_inv_def gateway_reachable_unguarded)
  then show "HandleWS env r (RW_hub (MS_world s)) =
      Inr (if W_upgrade env then (Serving (V_next (RW_hub (MS_world s))) InputHandler, registered 0 (RW_hub (MS_world s)))
           else (UpgradeFailed, RW_hub (MS_world s)))"
    by (rule HandleWS_unguarded)
qed (simp add: handler_of_def handleInput_riskEngine)

definition a_request :: Request where
  "a_request = \<lparr>Q_XForwardedFor = [], Q_XRealIP = [], Q_RemoteAddr = ''10.0.0.1:4000'', Q_sessionId = ''7''\<rparr>"

definition an_upgrade :: ws_env where
  "an_upgrade = \<lparr>W_now = 0, W_breaker_now = 0, W_upgrade = True, W_since = 0, W_attach = 0\<rparr>"

theorem running_gateway_is_open_witness:
  "\<exists>g. HandleWS an_upgrade a_request HubGlobal = Inr (Serving 0 InputHandler, g)"
  using running_gateway_is_open [OF first_reachable, of an_upgrade a_request]
  by (simp add: first_parts an_upgrade_def HubGlobal_def start_gateway_def)


definition disconnected :: main_state where
  \<comment> \<open>one connection was served and has ended, and a SIGUSR2 waits\<close>
  "disconnected = first_state
     \<lparr>MS_sigChan := \<lparr>ch_buf = [SIGUSR2], ch_cap = 1, ch_closed = False\<rparr>,
      MS_world := (MS_world first_state)
        \<lparr>RW_hub := set_conn 0 ((NewConn 0)\<lparr>K_ID := 1, K_Send := (make_chan 0)\<lparr>ch_closed := True\<rparr>\<rparr>) (registered 0 HubGlobal)\<rparr>\<rparr>"


end
