(* ===== verification/Spec2Isabelle.thy ===== *)
theory Spec2Isabelle
  imports Prelude GoRuntime Codec BufferPool RingBuffer Session Multiexec Regexp RegexpSyntax RegexpScan Risk RateLimit Float64 Breaker Pumps Hub Router Graceful Hashes Diff Probe AuditLog Ssh Config ServerMain
begin

text \<open>
  Verification development of the multi-terminal gateway, the Go program under \<open>gateway/\<close>. Browsers open
  WebSockets to the gateway, which keeps sessions on remote hosts over SSH, checks the input against risk rules,
  runs one command on many hosts, collects the output through ring buffers into binary frames, and can restart
  without dropping its state.

  Parts and how they interact.
  \<^item> \<open>cmd/server/main.go\<close> (\<open>ServerMain\<close>) loads the configuration (\<open>Config\<close>, \<open>internal/config\<close>), makes the
    start-up checks (\<open>Breaker\<close>, \<open>internal/resource/guard.go\<close>), serves \<open>HandleWS\<close> and waits for signals.
  \<^item> \<open>internal/server\<close>: the hub and the endpoint (\<open>Hub\<close>, \<open>server.go\<close>) use the rate limiter (\<open>RateLimit\<close>), the circuit
    breaker (\<open>Breaker\<close>), the sessions (\<open>Session\<close>) and the risk engine (\<open>Risk\<close>); each connection runs two pumps
    (\<open>Pumps\<close>, \<open>conn.go\<close>); the graceful restart (\<open>Graceful\<close>, \<open>graceful.go\<close>) broadcasts through the hub.
  \<^item> \<open>internal/session\<close> (\<open>Session\<close>, and \<open>Probe\<close> for \<open>context_checker.go\<close>): sessions, their registry, clean-up and
    reconnection, the probe for what runs in a terminal. \<open>internal/multiexec\<close> (\<open>Multiexec\<close>) writes to sessions.
  \<^item> \<open>internal/router\<close> (\<open>RingBuffer\<close>, \<open>Router\<close>) moves output from ring buffers to the hub, with buffers of \<open>pkg/buffer\<close>
    (\<open>BufferPool\<close>) and frames of \<open>pkg/codec\<close> (\<open>Codec\<close>).
  \<^item> \<open>internal/ssh\<close> (\<open>Ssh\<close>), \<open>internal/diff\<close> (\<open>Diff\<close>, hashes in \<open>Hashes\<close>) and \<open>internal/audit\<close> (\<open>AuditLog\<close>) are modelled by
    themselves. The entry point imports none of these three, nor \<open>internal/multiexec\<close> and \<open>internal/router\<close>, so what is
    proved of these five packages is about their use by a caller.

  Library. \<open>Prelude\<close> has the machine integers, panics as values (a sum, \<open>Inl\<close> the panic), slices and big-endian
  stores; \<open>GoRuntime\<close> the clock, formatting, \<open>sync.Map\<close>, channels, and two interfaces: \<open>registry\<close> (what is added under a key is
  found there; interpreted by the session manager and the ssh manager) and \<open>lockstep\<close> (an implementation answers as
  a reference; interpreted by the limiter and the breaker). \<open>Codec\<close> declares \<open>framing\<close>, interpreted by the codec and the
  maintenance frame; \<open>BufferPool\<close> and \<open>RingBuffer\<close> declare and interpret \<open>buffer_source\<close> and \<open>byte_queue\<close>.
  \<open>Regexp\<close>, \<open>RegexpSyntax\<close> and \<open>RegexpScan\<close> model Go's \<open>regexp\<close> for the syntax the gateway uses: UTF-8 decoding, the parser with its
  errors, the leftmost-first backtracking matcher, \<open>ReplaceAllString\<close>, and what they compute on the shapes used.
  \<open>Float64\<close> models the float64 operations of the breaker.

  Correspondence. A Go struct is a record whose fields carry a prefix, an enumeration a datatype; a method is a
  definition of the same name (with a prefix or a suffix where names clash) that takes the receiver and returns it
  updated; an error is a constructor of an error datatype; \<open>uint8\<close>, \<open>uint16\<close>, \<open>uint32\<close> are words, \<open>int64\<close> arithmetic that may
  overflow is wrapped by \<open>wrap64\<close>. A lock that covers a whole method makes the definition one atomic step; where methods
  interleave (the pumps, the endpoint and the hub, \<open>GetOrCreate\<close>, the signal loop) there is an inductive step relation or
  an event sequence. Answers of the operating system, the clock, the network and third-party packages are arguments.

  What the lemmas show, component by component.
  \<^item> \<open>Codec\<close>, \<open>RingBuffer\<close>, \<open>BufferPool\<close>: round trip, exact acceptance and truncation; refinement of a byte queue, and the writes and reads
    that break it; capacity classes.
  \<^item> \<open>Session\<close>, \<open>Probe\<close>, \<open>Multiexec\<close>: reconnection in all cases and by one client at a time, exact clean-up, the reachable
    states; classification and termination of the probe; what each host receives, and the loss of order
    of asynchronous broadcasts.
  \<^item> \<open>Risk\<close>, \<open>RateLimit\<close>, \<open>Breaker\<close>: first match, atomic loading, failure of the default rules; refinement of a limiter that never
    forgets and the bound in any window; exact thresholds and refinement of the last reading.
  \<^item> \<open>Pumps\<close>, \<open>Hub\<close>, \<open>Router\<close>, \<open>Graceful\<close>: the end of a pump is a panic, the queue is FIFO; admission, broadcast, and that the hub never
    forgets; that the router delivers nothing, and its hysteresis; the maintenance frame and the saved state.
  \<^item> \<open>Ssh\<close>, \<open>Diff\<close>, \<open>AuditLog\<close>, \<open>Config\<close>: no lost connection in sequence and a lost one under interleaving; the scanner behind
    \<open>StripANSI\<close>, the panic of the package variables; what the filter masks and misses, when logs overwrite each other;
    loading once, the environment, the defaults.
  \<^item> \<open>ServerMain\<close>: over all reachable states of the program, that no signal shuts it down, that the endpoint
    is unguarded, and that a restart after a disconnection crashes.

  Bounds and fuel. The parser of regular expressions has fuel twice the length of the pattern plus two, one unit per call; it
  is run on the patterns of the program only, by evaluation, and never runs out there (running out would be the error \<open>Unsupported\<close>).
  A star of the matcher iterates at most as often as there are runes left, since a round must consume one. The probe
  runs on a script of reads: at its end it is still waiting, and \<open>probe_terminates\<close> says which scripts are long enough. Cursors of the ring buffer
  are below \<open>2 ^ 63\<close>, the breaker's limit is at most \<open>2 ^ 44\<close> and its counts below \<open>2 ^ 53\<close> where a theorem says so. Other functions are total.

  Not modelled. \<open>internal/metrics\<close> only declares Prometheus collectors and returns their handler. Logging is left out. JSON is
  modelled by its syntax trees, not its text, so neither escaping nor the replacement of invalid UTF-8 appears. The package
  \<open>golang.org/x/crypto/ssh\<close>, gorilla/websocket, viper and zstd are parameters or arguments. The handoff of descriptors is not implemented in
  the code either. The TypeScript frontend, the deployment files and the tests are outside the development.
\<close>

end
